theory Spec2Isabelle
  imports Complex_Main "HOL-Library.Product_Lexorder" "HOL-Library.Multiset"
begin

section \<open>Python values and exceptions\<close>

text \<open>
  Exceptions are values. \<open>OCRFailedOnPage n e\<close> stands for the
  \<^verbatim>\<open>RuntimeError(f"OCR failed on page {page_number}: {e}")\<close> of
  \<^verbatim>\<open>run_ocr_on_file\<close>: the page number and the wrapped exception are kept
  apart instead of being formatted into one message. \<open>EngineError\<close> is whatever an
  external library (pytesseract, PaddleOCR, pdf2image, PIL, SQLAlchemy) raises.
\<close>

datatype error =
    FileNotFoundError string
  | ValueError string
  | RuntimeError string
  | IndexError
  | EOFError
  | EngineError string
  | OCRFailedOnPage nat error

definition try_bind :: "error + 'a \<Rightarrow> ('a \<Rightarrow> error + 'b) \<Rightarrow> error + 'b" where
  "try_bind m f = (case m of Inl e \<Rightarrow> Inl e | Inr v \<Rightarrow> f v)"

text \<open>\<^verbatim>\<open>xs[i]\<close> for \<open>i \<ge> 0\<close>: IndexError out of range.\<close>

definition index :: "'a list \<Rightarrow> nat \<Rightarrow> error + 'a" where
  "index xs i = (if i < length xs then Inr (xs ! i) else Inl IndexError)"

text \<open>
  A value that is a \<^verbatim>\<open>str\<close> or a number (\<^verbatim>\<open>int\<close> or \<^verbatim>\<open>float\<close>):
  what a cell of pytesseract's \<^verbatim>\<open>conf\<close> column can hold. Numbers are exact reals
  here; rounding of binary floating point is not modelled.
\<close>

datatype pyval = PyStr string | PyNum real

text \<open>
  \<^verbatim>\<open>float(v)\<close>. The parser of \<^verbatim>\<open>float\<close> on a \<^verbatim>\<open>str\<close> is a parameter
  (\<open>None\<close> where Python raises ValueError).
\<close>

definition py_float :: "(string \<Rightarrow> real option) \<Rightarrow> pyval \<Rightarrow> error + real" where
  "py_float parse v =
     (case v of
        PyNum r \<Rightarrow> Inr r
      | PyStr s \<Rightarrow> (case parse s of
                     None \<Rightarrow> Inl (ValueError ''could not convert string to float'')
                   | Some r \<Rightarrow> Inr r))"

text \<open>\<^verbatim>\<open>int(r)\<close> on a float: truncation towards zero.\<close>

definition py_int :: "real \<Rightarrow> int" where
  "py_int r = (if 0 \<le> r then \<lfloor>r\<rfloor> else \<lceil>r\<rceil>)"

text \<open>\<^verbatim>\<open>min(xs)\<close> and \<^verbatim>\<open>max(xs)\<close>: ValueError on an empty sequence.\<close>

definition py_min :: "real list \<Rightarrow> error + real" where
  "py_min vs = (case vs of [] \<Rightarrow> Inl (ValueError ''min() arg is an empty sequence'')
                | v # rest \<Rightarrow> Inr (fold min rest v))"

definition py_max :: "real list \<Rightarrow> error + real" where
  "py_max vs = (case vs of [] \<Rightarrow> Inl (ValueError ''max() arg is an empty sequence'')
                | v # rest \<Rightarrow> Inr (fold max rest v))"

text \<open>
  \<^verbatim>\<open>str.strip()\<close>: leading and trailing whitespace removed. A \<open>char\<close> is a code
  point below 256, and \<open>isspace\<close> lists every code point of that range that
  \<^verbatim>\<open>strip()\<close> removes: space, tab, line feed, vertical tab, form feed, carriage
  return, the four separators 0x1C..0x1F, next line (U+0085) and no-break space (U+00A0).
  The whitespace of Unicode from U+1680 on has no \<open>char\<close>: a text that holds a code point
  from 256 on is not a \<open>string\<close>.
\<close>

definition isspace :: "char \<Rightarrow> bool" where
  "isspace c = (c \<in> set [CHR '' '', CHR 0x09, CHR 0x0A, CHR 0x0B, CHR 0x0C, CHR 0x0D,
                          CHR 0x1C, CHR 0x1D, CHR 0x1E, CHR 0x1F, CHR 0x85, CHR 0xA0])"

definition strip :: "string \<Rightarrow> string" where
  "strip s = rev (dropWhile isspace (rev (dropWhile isspace s)))"

section \<open>OCR rows and the two adapters (ocr.py)\<close>

text \<open>
  The dict an adapter appends to \<^verbatim>\<open>results\<close>. The keys \<^verbatim>\<open>x\<close>, \<^verbatim>\<open>y\<close>,
  \<^verbatim>\<open>width\<close>, \<^verbatim>\<open>height\<close> are the fields \<open>r_x\<close>, \<open>r_y\<close>, \<open>r_width\<close>,
  \<open>r_height\<close>.
\<close>

record ocr_row =
  line_number :: nat
  line_text :: string
  confidence :: "real option"
  r_x :: int
  r_y :: int
  r_width :: int
  r_height :: int

text \<open>A page image: its mode and its raster, which OCR and conversion leave opaque.\<close>

datatype image = Image string nat

fun convert_RGB :: "image \<Rightarrow> image" where
  "convert_RGB (Image m px) = Image ''RGB'' px"

text \<open>
  \<^verbatim>\<open>pytesseract.image_to_data(image, output_type=Output.DICT)\<close>: parallel columns,
  \<open>d_text\<close> for the key \<^verbatim>\<open>"text"\<close> and so on.
\<close>

record tess_data =
  d_text :: "string list"
  d_conf :: "pyval list"
  d_left :: "int list"
  d_top :: "int list"
  d_width :: "int list"
  d_height :: "int list"

text \<open>
  One entry of PaddleOCR's \<^verbatim>\<open>result[0]\<close>: \<open>Detection box text confidence\<close> unpacks as
  \<^verbatim>\<open>box, (text, confidence) = line\<close>; \<open>Malformed\<close> is an entry for which that
  unpacking raises.
\<close>

datatype paddle_line = Malformed | Detection "(real \<times> real) list" string real

text \<open>
  The external engines. \<open>paddle_ocr = None\<close> is \<^verbatim>\<open>PaddleOCR is None\<close> (the import
  failed). \<^verbatim>\<open>get_paddle_ocr\<close> builds the engine once and caches it in a global; the
  cache does not change what a call returns and is left out. The value of
  \<^verbatim>\<open>ocr.ocr(...)\<close> is \<^verbatim>\<open>None\<close> or a list whose first element is \<^verbatim>\<open>None\<close> or
  the list of detections.
\<close>

record engines =
  image_to_data :: "image \<Rightarrow> error + tess_data"
  float_of_str :: "string \<Rightarrow> real option"
  paddle_ocr :: "(image \<Rightarrow> error + paddle_line list option list option) option"

subsection \<open>\_ocr\_tesseract\<close>

definition tess_conf :: "(string \<Rightarrow> real option) \<Rightarrow> pyval \<Rightarrow> error + real option" where
  "tess_conf parse c =
     (if c \<noteq> PyStr ''-1'' then try_bind (py_float parse c) (\<lambda>r. Inr (Some r)) else Inr None)"

text \<open>The body of the loop at index \<open>i < len(data["text"])\<close>: the row appended, if any.\<close>

definition tess_row :: "(string \<Rightarrow> real option) \<Rightarrow> tess_data \<Rightarrow> nat \<Rightarrow> error + ocr_row option" where
  "tess_row parse d i =
     (let t = strip (d_text d ! i) in
      if t \<noteq> [] then
        try_bind (index (d_conf d) i) (\<lambda>c.
        try_bind (tess_conf parse c) (\<lambda>cf.
        try_bind (index (d_left d) i) (\<lambda>l.
        try_bind (index (d_top d) i) (\<lambda>tp.
        try_bind (index (d_width d) i) (\<lambda>w.
        try_bind (index (d_height d) i) (\<lambda>h.
          Inr (Some \<lparr>line_number = i, line_text = t, confidence = cf,
                      r_x = l, r_y = tp, r_width = w, r_height = h\<rparr>)))))))
      else Inr None)"

fun tess_loop :: "(string \<Rightarrow> real option) \<Rightarrow> tess_data \<Rightarrow> nat list \<Rightarrow> ocr_row list \<Rightarrow> error + ocr_row list" where
  "tess_loop parse d [] results = Inr results"
| "tess_loop parse d (i # rest) results =
     (case tess_row parse d i of
        Inl e \<Rightarrow> Inl e
      | Inr None \<Rightarrow> tess_loop parse d rest results
      | Inr (Some r) \<Rightarrow> tess_loop parse d rest (results @ [r]))"

definition ocr_tesseract :: "engines \<Rightarrow> image \<Rightarrow> error + ocr_row list" where
  "ocr_tesseract eng img =
     try_bind (image_to_data eng img) (\<lambda>d.
       tess_loop (float_of_str eng) d [0..<length (d_text d)] [])"

subsection \<open>\_ocr\_paddle\<close>

definition get_paddle_ocr :: "engines \<Rightarrow> error + (image \<Rightarrow> error + paddle_line list option list option)" where
  "get_paddle_ocr eng =
     (case paddle_ocr eng of
        None \<Rightarrow> Inl (RuntimeError ''PaddleOCR not installed. Run `pip install paddleocr paddlepaddle`.'')
      | Some ocr \<Rightarrow> Inr ocr)"

text \<open>The body of the loop for the entry \<open>line\<close> at position \<open>i\<close>.\<close>

definition paddle_row :: "nat \<Rightarrow> paddle_line \<Rightarrow> error + ocr_row option" where
  "paddle_row i line =
     (case line of
        Malformed \<Rightarrow> Inr None
      | Detection box txt conf \<Rightarrow>
          if txt = [] then Inr None
          else
            let xs = map fst box; ys = map snd box in
            try_bind (py_min xs) (\<lambda>mx.
            try_bind (py_min ys) (\<lambda>my.
              let x = py_int mx; y = py_int my in
              try_bind (py_max xs) (\<lambda>Mx.
              try_bind (py_max ys) (\<lambda>My.
                let w = py_int (Mx - real_of_int x); h = py_int (My - real_of_int y) in
                Inr (Some \<lparr>line_number = i, line_text = txt, confidence = Some conf,
                            r_x = x, r_y = y, r_width = w, r_height = h\<rparr>))))))"

fun paddle_loop :: "(nat \<times> paddle_line) list \<Rightarrow> ocr_row list \<Rightarrow> error + ocr_row list" where
  "paddle_loop [] results = Inr results"
| "paddle_loop ((i, line) # rest) results =
     (case paddle_row i line of
        Inl e \<Rightarrow> Inl e
      | Inr None \<Rightarrow> paddle_loop rest results
      | Inr (Some r) \<Rightarrow> paddle_loop rest (results @ [r]))"

definition ocr_paddle :: "engines \<Rightarrow> image \<Rightarrow> error + ocr_row list" where
  "ocr_paddle eng img =
     try_bind (get_paddle_ocr eng) (\<lambda>ocr.
     try_bind (ocr img) (\<lambda>result.
       case result of
         None \<Rightarrow> Inr []
       | Some [] \<Rightarrow> Inr []
       | Some (None # _) \<Rightarrow> Inr []
       | Some (Some [] # _) \<Rightarrow> Inr []
       | Some (Some lines # _) \<Rightarrow> paddle_loop (zip [0..<length lines] lines) []))"

section \<open>Paths and files\<close>

text \<open>
  \<^verbatim>\<open>os.path\<close> is modelled as \<^verbatim>\<open>posixpath\<close>: the separator is \<open>/\<close> and there is
  no drive letter. \<open>lower\<close> is \<^verbatim>\<open>str.lower()\<close> on the code points below 256:
  the letters A..Z, and 0xC0..0xDE without the sign 0xD7, move up by 32.
\<close>

definition startswith :: "string \<Rightarrow> string \<Rightarrow> bool" where
  "startswith s p = (take (length p) s = p)"

definition endswith :: "string \<Rightarrow> string \<Rightarrow> bool" where
  "endswith s p = (length p \<le> length s \<and> drop (length s - length p) s = p)"

definition lower_char :: "char \<Rightarrow> char" where
  "lower_char c =
     (let n = (of_char c :: nat) in
      if (65 \<le> n \<and> n \<le> 90) \<or> (192 \<le> n \<and> n \<le> 222 \<and> n \<noteq> 215) then char_of (n + 32) else c)"

definition lower :: "string \<Rightarrow> string" where
  "lower s = map lower_char s"

text \<open>\<^verbatim>\<open>s.rfind(c)\<close>: the highest index of \<open>c\<close>, or \<open>-1\<close>.\<close>

fun rfind :: "string \<Rightarrow> char \<Rightarrow> int" where
  "rfind [] c = -1"
| "rfind (ch # s) c =
     (let r = rfind s c in if 0 \<le> r then r + 1 else if ch = c then 0 else -1)"

text \<open>\<^verbatim>\<open>s.split(c)\<close> and \<^verbatim>\<open>sep.join(comps)\<close>.\<close>

fun split_sep :: "char \<Rightarrow> string \<Rightarrow> string list" where
  "split_sep c [] = [[]]"
| "split_sep c (ch # s) =
     (if ch = c then [] # split_sep c s
      else (case split_sep c s of [] \<Rightarrow> [[ch]] | w # ws \<Rightarrow> (ch # w) # ws))"

fun join_sep :: "string \<Rightarrow> string list \<Rightarrow> string" where
  "join_sep sep [] = []"
| "join_sep sep [w] = w"
| "join_sep sep (w # ws) = w @ sep @ join_sep sep ws"

definition isabs :: "string \<Rightarrow> bool" where
  "isabs p = startswith p ''/''"

text \<open>\<^verbatim>\<open>os.path.join(a, b)\<close>.\<close>

definition path_join :: "string \<Rightarrow> string \<Rightarrow> string" where
  "path_join a b =
     (if startswith b ''/'' then b
      else if a = [] \<or> endswith a ''/'' then a @ b
      else a @ ''/'' @ b)"

text \<open>The loop of \<^verbatim>\<open>normpath\<close> over the components, \<open>init\<close> the number of initial slashes.\<close>

fun norm_comps :: "nat \<Rightarrow> string list \<Rightarrow> string list \<Rightarrow> string list" where
  "norm_comps init [] new_comps = new_comps"
| "norm_comps init (part # comps) new_comps =
     (if part = [] \<or> part = ''.'' then norm_comps init comps new_comps
      else if part \<noteq> ''..'' \<or> (init = 0 \<and> new_comps = [])
                \<or> (new_comps \<noteq> [] \<and> last new_comps = ''..'')
        then norm_comps init comps (new_comps @ [part])
      else if new_comps \<noteq> [] then norm_comps init comps (butlast new_comps)
      else norm_comps init comps new_comps)"

definition normpath :: "string \<Rightarrow> string" where
  "normpath path =
     (if path = [] then ''.''
      else
        let initial_slashes =
              (if startswith path ''/''
               then (if startswith path ''//'' \<and> \<not> startswith path ''///'' then 2 else 1)
               else (0::nat));
            comps = norm_comps initial_slashes (split_sep CHR ''/'' path) [];
            p = replicate initial_slashes CHR ''/'' @ join_sep ''/'' comps
        in if p = [] then ''.'' else p)"

text \<open>
  \<^verbatim>\<open>os.path.splitext(p)\<close>: the extension starts at the last dot of the last component,
  unless that component holds only leading dots before it. \<open>has_nondot\<close> is the loop that
  skips the leading dots.
\<close>

function has_nondot :: "string \<Rightarrow> nat \<Rightarrow> nat \<Rightarrow> bool" where
  "has_nondot p filenameIndex dotIndex =
     (if filenameIndex < dotIndex
      then (if take 1 (drop filenameIndex p) \<noteq> ''.'' then True
            else has_nondot p (filenameIndex + 1) dotIndex)
      else False)"
  by pat_completeness auto
termination
  by (relation "measure (\<lambda>(p, filenameIndex, dotIndex). dotIndex - filenameIndex)") auto

definition splitext :: "string \<Rightarrow> string \<times> string" where
  "splitext p =
     (let sepIndex = rfind p CHR ''/''; dotIndex = rfind p CHR ''.'' in
      if sepIndex < dotIndex \<and> has_nondot p (nat (sepIndex + 1)) (nat dotIndex)
      then (take (nat dotIndex) p, drop (nat dotIndex) p)
      else (p, []))"

text \<open>
  What a file holds: a PDF with its rendered pages, an image file with its frames (a
  multi-frame TIFF), or bytes that neither pdf2image nor PIL can read. The file system
  maps an absolute, normalised path to the file there; a file system call on a path
  acts on the entry of the path's absolute form.
\<close>

datatype content = PdfDoc "image list" | TiffDoc "image list" | Garbage

record os_env =
  cwd :: string
  files :: "string \<Rightarrow> content option"

definition abspath :: "os_env \<Rightarrow> string \<Rightarrow> string" where
  "abspath env path = normpath (if isabs path then path else path_join (cwd env) path)"

definition path_exists :: "os_env \<Rightarrow> string \<Rightarrow> bool" where
  "path_exists env abs_path = (files env abs_path \<noteq> None)"

text \<open>\<^verbatim>\<open>pdf2image.convert_from_path\<close> and \<^verbatim>\<open>PIL.Image.open\<close>, \<^verbatim>\<open>im.seek\<close>.\<close>

definition convert_from_path :: "os_env \<Rightarrow> string \<Rightarrow> error + image list" where
  "convert_from_path env abs_path =
     (case files env abs_path of
        Some (PdfDoc pages) \<Rightarrow> Inr pages
      | _ \<Rightarrow> Inl (EngineError ''pdf2image: unable to read the document''))"

definition image_open :: "os_env \<Rightarrow> string \<Rightarrow> error + image list" where
  "image_open env abs_path =
     (case files env abs_path of
        Some (TiffDoc frames) \<Rightarrow> Inr frames
      | _ \<Rightarrow> Inl (EngineError ''PIL: cannot identify image file''))"

definition seek :: "image list \<Rightarrow> nat \<Rightarrow> error + image" where
  "seek im i = (if i < length im then Inr (im ! i) else Inl EOFError)"

text \<open>The file system calls a run makes, in order.\<close>

datatype io_event = Exists string | ConvertFromPath string | ImageOpen string

section \<open>\_images\_from\_file\<close>

definition images_from_pdf :: "os_env \<Rightarrow> string \<Rightarrow> error + (nat \<times> image) list" where
  "images_from_pdf env abs_path =
     try_bind (convert_from_path env abs_path) (\<lambda>pages.
       if pages = [] then Inl (RuntimeError ''No pages extracted from PDF.'')
       else Inr (map (\<lambda>(i, page). (i, convert_RGB page)) (enumerate 1 pages)))"

text \<open>The \<^verbatim>\<open>while True\<close> loop over the frames; EOFError ends it.\<close>

function tiff_loop :: "image list \<Rightarrow> nat \<Rightarrow> (nat \<times> image) list \<Rightarrow> error + (nat \<times> image) list" where
  "tiff_loop im i images =
     (case seek im i of
        Inl e \<Rightarrow> (if e = EOFError then Inr images else Inl e)
      | Inr frame \<Rightarrow> tiff_loop im (i + 1) (images @ [(i + 1, convert_RGB frame)]))"
  by pat_completeness auto
termination
  by (relation "measure (\<lambda>(im, i, images). length im - i)")
     (auto simp: seek_def split: if_splits)

definition images_from_tiff :: "os_env \<Rightarrow> string \<Rightarrow> error + (nat \<times> image) list" where
  "images_from_tiff env abs_path =
     (case image_open env abs_path of
        Inl e \<Rightarrow> (if e = EOFError then Inr [] else Inl e)
      | Inr im \<Rightarrow> tiff_loop im 0 [])"

definition images_from_file :: "os_env \<Rightarrow> string \<Rightarrow> (error + (nat \<times> image) list) \<times> io_event list" where
  "images_from_file env path =
     (let abs_path = abspath env path in
      if \<not> path_exists env abs_path
      then (Inl (FileNotFoundError abs_path), [Exists abs_path])
      else
        let ext = lower (snd (splitext abs_path)) in
        if ext = ''.pdf''
        then (images_from_pdf env abs_path, [Exists abs_path, ConvertFromPath abs_path])
        else if ext = ''.tif'' \<or> ext = ''.tiff''
        then (images_from_tiff env abs_path, [Exists abs_path, ImageOpen abs_path])
        else (Inl (ValueError ''Unsupported file format. Only PDF and TIFF are supported.''),
              [Exists abs_path]))"

section \<open>The storage session (models.py and the SQLAlchemy session)\<close>

text \<open>
  A row of the table \<^verbatim>\<open>ocr_results\<close>: the columns of \<^verbatim>\<open>models.OCRResult\<close> but
  \<^verbatim>\<open>processed_at\<close>, which the server fills with its clock.
\<close>

record db_row =
  c_id :: nat
  c_file_name :: string
  c_page_number :: nat
  c_line_number :: nat
  c_line_text :: string
  c_x :: int
  c_y :: int
  c_width :: int
  c_height :: int

text \<open>
  The session: \<open>stored\<close> are the committed rows of the table, \<open>pending\<close> the rows
  written in the open transaction. How the storage engine fails is part of the state:
  \<open>insert_fails_at = Some k\<close> makes a bulk insert of more than \<open>k\<close> rows raise at row
  \<open>k\<close>, after \<open>k\<close> rows were written in the transaction; \<open>commit_fails\<close> makes
  \<^verbatim>\<open>commit\<close> raise.
\<close>

record session =
  stored :: "db_row list"
  pending :: "db_row list"
  insert_fails_at :: "nat option"
  commit_fails :: bool

text \<open>A row dict after \<^verbatim>\<open>r.update({"file_name": ..., "page_number": ...})\<close>.\<close>

record tagged_row = ocr_row +
  file_name :: string
  page_number :: nat

definition tag :: "string \<Rightarrow> nat \<Rightarrow> ocr_row \<Rightarrow> tagged_row" where
  "tag original_name pn r =
     \<lparr>line_number = line_number r, line_text = line_text r, confidence = confidence r,
      r_x = r_x r, r_y = r_y r, r_width = r_width r, r_height = r_height r,
      file_name = original_name, page_number = pn\<rparr>"

text \<open>
  The mapping of a dict to the columns: the key \<^verbatim>\<open>confidence\<close> has no column and is
  dropped; the identity key is the next free one.
\<close>

definition to_db_row :: "nat \<Rightarrow> tagged_row \<Rightarrow> db_row" where
  "to_db_row n m =
     \<lparr>c_id = n, c_file_name = file_name m, c_page_number = page_number m,
      c_line_number = line_number m, c_line_text = line_text m,
      c_x = r_x m, c_y = r_y m, c_width = r_width m, c_height = r_height m\<rparr>"

definition bulk_insert_mappings :: "session \<Rightarrow> tagged_row list \<Rightarrow> (error + unit) \<times> session" where
  "bulk_insert_mappings s mappings =
     (let first = Suc (length (stored s) + length (pending s));
          new = map (\<lambda>(n, m). to_db_row n m) (enumerate first mappings)
      in case insert_fails_at s of
           None \<Rightarrow> (Inr (), s\<lparr>pending := pending s @ new\<rparr>)
         | Some k \<Rightarrow>
             if k < length mappings
             then (Inl (EngineError ''bulk insert failed''), s\<lparr>pending := pending s @ take k new\<rparr>)
             else (Inr (), s\<lparr>pending := pending s @ new\<rparr>))"

definition commit :: "session \<Rightarrow> (error + unit) \<times> session" where
  "commit s =
     (if commit_fails s then (Inl (EngineError ''commit failed''), s)
      else (Inr (), s\<lparr>stored := stored s @ pending s, pending := []\<rparr>))"

definition rollback :: "session \<Rightarrow> session" where
  "rollback s = s\<lparr>pending := []\<rparr>"

section \<open>run\_ocr\_on\_file\<close>

datatype SupportedEngine = tesseract | paddle

definition ocr_page :: "engines \<Rightarrow> SupportedEngine \<Rightarrow> image \<Rightarrow> error + ocr_row list" where
  "ocr_page eng engine img =
     (if engine = tesseract then ocr_tesseract eng img else ocr_paddle eng img)"

text \<open>The loop over the pages, \<open>all_results\<close> the accumulator.\<close>

fun ocr_pages :: "engines \<Rightarrow> SupportedEngine \<Rightarrow> string \<Rightarrow> (nat \<times> image) list \<Rightarrow> tagged_row list
    \<Rightarrow> error + tagged_row list" where
  "ocr_pages eng engine original_name [] all_results = Inr all_results"
| "ocr_pages eng engine original_name ((pn, img) # rest) all_results =
     (case ocr_page eng engine img of
        Inl e \<Rightarrow> Inl (OCRFailedOnPage pn e)
      | Inr rows \<Rightarrow>
          ocr_pages eng engine original_name rest (all_results @ map (tag original_name pn) rows))"

text \<open>The \<^verbatim>\<open>try\<close> block around the insert and the commit, with its \<^verbatim>\<open>except\<close>.\<close>

definition persist :: "session \<Rightarrow> tagged_row list \<Rightarrow> (error + nat) \<times> session" where
  "persist s all_results =
     (case bulk_insert_mappings s all_results of
        (Inl e, s1) \<Rightarrow> (Inl e, rollback s1)
      | (Inr u, s1) \<Rightarrow>
          (case commit s1 of
             (Inl e, s2) \<Rightarrow> (Inl e, rollback s2)
           | (Inr u', s2) \<Rightarrow> (Inr (length all_results), s2)))"

text \<open>
  The result is the pair \<open>(inserted, len(images))\<close> or the exception raised, with the
  session as the call leaves it; \<open>db = None\<close> is the default argument.
\<close>

definition run_ocr_on_file ::
  "os_env \<Rightarrow> engines \<Rightarrow> string \<Rightarrow> string \<Rightarrow> SupportedEngine \<Rightarrow> session option
     \<Rightarrow> (error + nat \<times> nat) \<times> session option" where
  "run_ocr_on_file env eng path original_name engine db =
     (case fst (images_from_file env path) of
        Inl e \<Rightarrow> (Inl e, db)
      | Inr images \<Rightarrow>
          (case ocr_pages eng engine original_name images [] of
             Inl e \<Rightarrow> (Inl e, db)
           | Inr all_results \<Rightarrow>
               (case db of
                  None \<Rightarrow> (Inr (0, length images), db)
                | Some s \<Rightarrow>
                    if all_results \<noteq> [] then
                      (case persist s all_results of
                         (Inl e, s') \<Rightarrow> (Inl e, Some s')
                       | (Inr inserted, s') \<Rightarrow> (Inr (inserted, length images), Some s'))
                    else (Inr (0, length images), db))))"

section \<open>The endpoints (main.py)\<close>

text \<open>
  \<open>HTTPException status detail\<close>; \<open>OCRFailed e\<close> is
  \<^verbatim>\<open>HTTPException(status_code=500, detail=f"OCR failed: {ocr_err}")\<close>.
\<close>

datatype http_error = HTTPException nat string | OCRFailed error

record paginated =
  total :: nat
  items :: "db_row list"

text \<open>
  The SQL layer. An integer that a query binds is a signed 64-bit value: for a Python
  \<^verbatim>\<open>int\<close> outside that range the driver raises (\<^verbatim>\<open>OverflowError\<close>) when the query
  runs. \<^verbatim>\<open>ORDER BY\<close> gives the rows in ascending order of the key; the order among rows
  with equal keys is the engine's choice. \<open>scan\<close> is that choice: the order in which the
  engine takes up the rows it sorts, any rearrangement of them.
\<close>

definition fits_int64 :: "int \<Rightarrow> bool" where
  "fits_int64 v = (- (2 ^ 63) \<le> v \<and> v < 2 ^ 63)"

definition order_by :: "(db_row list \<Rightarrow> db_row list) \<Rightarrow> db_row list \<Rightarrow> db_row list" where
  "order_by scan rows = sort_key (\<lambda>r. (c_page_number r, c_line_number r)) (scan rows)"

text \<open>
  \<^verbatim>\<open>get_results\<close>. The bounds of \<^verbatim>\<open>Query(...)\<close> are checked before the body runs
  (status 422); \<open>None\<close> for \<open>limit\<close> and \<open>offset\<close> is the default. The body
  catches nothing: an exception of the driver leaves the endpoint as status 500.
\<close>

definition get_results :: "(db_row list \<Rightarrow> db_row list) \<Rightarrow> session \<Rightarrow> string
    \<Rightarrow> int option \<Rightarrow> int option \<Rightarrow> int option \<Rightarrow> http_error + paginated" where
  "get_results scan db fname page_no limit_arg offset_arg =
     (let limit = (case limit_arg of None \<Rightarrow> 50 | Some l \<Rightarrow> l);
          offset = (case offset_arg of None \<Rightarrow> 0 | Some off \<Rightarrow> off)
      in
      if (case page_no of None \<Rightarrow> False | Some p \<Rightarrow> p < 1) \<or> limit < 1 \<or> 500 < limit \<or> offset < 0
      then Inl (HTTPException 422 ''validation error'')
      else if (case page_no of None \<Rightarrow> False | Some p \<Rightarrow> p \<noteq> 0 \<and> \<not> fits_int64 p)
              \<or> \<not> fits_int64 limit \<or> \<not> fits_int64 offset
      then Inl (HTTPException 500 ''Internal Server Error'')
      else
        let base = filter (\<lambda>r. c_file_name r = fname) (stored db);
            base = (case page_no of
                      None \<Rightarrow> base
                    | Some p \<Rightarrow> if p \<noteq> 0 then filter (\<lambda>r. int (c_page_number r) = p) base else base);
            items = take (nat limit) (drop (nat offset) (order_by scan base))
        in Inr \<lparr>total = length base, items = items\<rparr>)"

record upload_file =
  filename :: string
  content_type :: string
  payload :: content
  payload_len :: nat

record settings =
  UPLOAD_DIR :: string
  MAX_FILE_BYTES :: nat

record job_result =
  j_file_name :: string
  j_engine :: string
  j_pages :: nat
  j_rows_inserted :: nat
  j_message :: string

definition engine_value :: "SupportedEngine \<Rightarrow> string" where
  "engine_value engine = (case engine of tesseract \<Rightarrow> ''tesseract'' | paddle \<Rightarrow> ''paddle'')"

definition write_file :: "os_env \<Rightarrow> string \<Rightarrow> content \<Rightarrow> os_env" where
  "write_file env path c = env\<lparr>files := (files env)(abspath env path := Some c)\<rparr>"

definition remove_file :: "os_env \<Rightarrow> string \<Rightarrow> os_env" where
  "remove_file env path = env\<lparr>files := (files env)(abspath env path := None)\<rparr>"

text \<open>
  \<^verbatim>\<open>upload_and_process\<close>. \<open>temp_id\<close> is \<^verbatim>\<open>uuid.uuid4().hex\<close>; the result comes
  with the file system and the session as the request leaves them.
\<close>

definition upload_ext :: "string \<Rightarrow> string" where
  "upload_ext fname = (if endswith (lower fname) ''.pdf'' then ''.pdf'' else ''.tiff'')"

definition upload_and_process ::
  "os_env \<Rightarrow> engines \<Rightarrow> settings \<Rightarrow> string \<Rightarrow> upload_file \<Rightarrow> SupportedEngine \<Rightarrow> session option
     \<Rightarrow> (http_error + job_result) \<times> os_env \<times> session option" where
  "upload_and_process env eng cfg temp_id file engine db =
     (if content_type file \<notin> set [''application/pdf'', ''image/tiff'', ''image/tif'', ''image/x-tiff'']
      then (Inl (HTTPException 415 ''Unsupported file format. Only PDF or TIFF allowed.''), env, db)
      else
        let ext = upload_ext (filename file);
            temp_path = path_join (UPLOAD_DIR cfg) (temp_id @ ext)
        in
        if MAX_FILE_BYTES cfg < payload_len file
        then (Inl (HTTPException 413 ''File too large.''), env, db)
        else
          let env1 = write_file env temp_path (payload file) in
          (case run_ocr_on_file env1 eng temp_path (filename file) engine db of
             (Inl ocr_err, db') \<Rightarrow> (Inl (OCRFailed ocr_err), remove_file env1 temp_path, db')
           | (Inr (total_rows, total_pages), db') \<Rightarrow>
               (Inr \<lparr>j_file_name = filename file, j_engine = engine_value engine,
                     j_pages = total_pages, j_rows_inserted = total_rows,
                     j_message = ''OCR completed and results stored.''\<rparr>,
                remove_file env1 temp_path, db')))"

section \<open>The rows an adapter returns\<close>

text \<open>
  Every row of an adapter's result was appended by one run of the loop body, at the index
  that is its \<open>line_number\<close>.
\<close>

lemma strip_strip: "strip (strip s) = strip s"
proof (cases "strip s = []")
  case True
  have "strip [] = []" by (simp add: strip_def)
  with True show ?thesis by simp
next
  case False
  define t where "t = dropWhile isspace s"
  have s': "strip s = rev (dropWhile isspace (rev t))" by (simp add: strip_def t_def)
  have tne: "t \<noteq> []" using False s' by auto
  have hd_t: "\<not> isspace (hd t)" using tne unfolding t_def by (simp add: hd_dropWhile)
  have "\<exists>u. t = strip s @ u"
    by (metis s' rev_append rev_rev_ident takeWhile_dropWhile_id)
  then obtain u where u: "t = strip s @ u" ..
  then have "hd (strip s) = hd t" using False by simp
  then have "dropWhile isspace (strip s) = strip s"
    using hd_t False by (cases "strip s") auto
  then have "strip (strip s) = rev (dropWhile isspace (rev (strip s)))"
    by (simp add: strip_def)
  also have "\<dots> = rev (dropWhile isspace (dropWhile isspace (rev t)))"
    by (simp add: s')
  also have "\<dots> = strip s" by (simp add: s' dropWhile_idem)
  finally show ?thesis .
qed

lemma tess_row_Some:
  "tess_row parse d i = Inr (Some r) \<Longrightarrow>
     line_number r = i \<and> line_text r = strip (d_text d ! i) \<and> line_text r \<noteq> [] \<and>
     (\<exists>c. index (d_conf d) i = Inr c \<and> tess_conf parse c = Inr (confidence r))"
  by (auto simp: tess_row_def try_bind_def Let_def split: if_splits sum.splits)

lemma tess_loop_rows:
  "tess_loop parse d is acc = Inr rows \<Longrightarrow> r \<in> set rows \<Longrightarrow>
     r \<in> set acc \<or> (\<exists>i \<in> set is. tess_row parse d i = Inr (Some r))"
proof (induction "is" arbitrary: acc)
  case Nil
  then show ?case by simp
next
  case (Cons i rest)
  then show ?case
    by (fastforce split: sum.splits option.splits)
qed

lemma ocr_tesseract_rows:
  assumes "ocr_tesseract eng img = Inr rows" "r \<in> set rows"
  shows "\<exists>d. image_to_data eng img = Inr d \<and> line_number r < length (d_text d) \<and>
             tess_row (float_of_str eng) d (line_number r) = Inr (Some r)"
proof -
  from assms(1) obtain d where d: "image_to_data eng img = Inr d"
    and l: "tess_loop (float_of_str eng) d [0..<length (d_text d)] [] = Inr rows"
    by (auto simp: ocr_tesseract_def try_bind_def split: sum.splits)
  from tess_loop_rows[OF l assms(2)] obtain i where
    "i < length (d_text d)" "tess_row (float_of_str eng) d i = Inr (Some r)" by auto
  with d tess_row_Some show ?thesis by blast
qed

lemma paddle_loop_rows:
  "paddle_loop ils acc = Inr rows \<Longrightarrow> r \<in> set rows \<Longrightarrow>
     r \<in> set acc \<or> (\<exists>(i, l) \<in> set ils. paddle_row i l = Inr (Some r))"
proof (induction ils acc rule: paddle_loop.induct)
  case (1 results)
  then show ?case by simp
next
  case (2 i line rest results)
  then show ?case
    by (fastforce split: sum.splits option.splits)
qed

lemma paddle_row_Some:
  "paddle_row i l = Inr (Some r) \<Longrightarrow>
    \<exists>box txt conf. l = Detection box txt conf \<and> txt \<noteq> [] \<and> line_number r = i \<and> line_text r = txt
      \<and> confidence r = Some conf"
  by (auto simp: paddle_row_def try_bind_def Let_def split: paddle_line.splits if_splits sum.splits)

lemma ocr_paddle_rows:
  assumes "ocr_paddle eng img = Inr rows" "r \<in> set rows"
  shows "\<exists>ocr lines more. paddle_ocr eng = Some ocr \<and> ocr img = Inr (Some (Some lines # more)) \<and>
           line_number r < length lines \<and>
           paddle_row (line_number r) (lines ! line_number r) = Inr (Some r)"
proof -
  from assms obtain ocr where o: "paddle_ocr eng = Some ocr"
    by (auto simp: ocr_paddle_def get_paddle_ocr_def try_bind_def split: option.splits)
  with assms obtain lines more where res: "ocr img = Inr (Some (Some lines # more))"
    and l: "paddle_loop (zip [0..<length lines] lines) [] = Inr rows"
    by (auto simp: ocr_paddle_def get_paddle_ocr_def try_bind_def split: option.splits sum.splits list.splits)
  from paddle_loop_rows[OF l assms(2)] obtain i line where
    il: "(i, line) \<in> set (zip [0..<length lines] lines)" and pr: "paddle_row i line = Inr (Some r)"
    by auto
  from il have "i < length lines" "line = lines ! i"
    by (auto simp: set_zip)
  moreover from pr paddle_row_Some have "line_number r = i" by blast
  ultimately show ?thesis using o res pr by auto
qed

lemma ocr_tesseract_line_text:
  assumes "ocr_tesseract eng img = Inr rows" "r \<in> set rows"
  shows "\<exists>d. image_to_data eng img = Inr d \<and> line_number r < length (d_text d) \<and>
           line_text r = strip (d_text d ! line_number r) \<and> strip (line_text r) \<noteq> []"
proof -
  from ocr_tesseract_rows[OF assms] obtain d where d: "image_to_data eng img = Inr d"
    "line_number r < length (d_text d)"
    "tess_row (float_of_str eng) d (line_number r) = Inr (Some r)" by blast
  from tess_row_Some[OF d(3)] have "line_text r = strip (d_text d ! line_number r)" "line_text r \<noteq> []"
    by auto
  moreover from this have "strip (line_text r) \<noteq> []" by (simp add: strip_strip)
  ultimately show ?thesis using d by blast
qed

text \<open>
  C1. The claim: in the result of either adapter, \<open>line_text\<close> is non-empty after
  trimming, and no row comes from a text that is empty or only whitespace. For
  \<^verbatim>\<open>_ocr_tesseract\<close> this is \<open>ocr_tesseract_line_text\<close>. \<^verbatim>\<open>_ocr_paddle\<close> tests
  \<^verbatim>\<open>if not text\<close> on the text as the engine gives it, without \<^verbatim>\<open>strip()\<close>: on a
  detection whose text is two spaces it returns a row whose \<open>line_text\<close> is those two
  spaces, which trims to the empty string.
\<close>

theorem ocr_paddle_keeps_blank_text:
  "ocr_paddle \<lparr>image_to_data = (\<lambda>i. Inl (EngineError [])), float_of_str = (\<lambda>s. None),
       paddle_ocr = Some (\<lambda>i. Inr (Some [Some [Detection [(0, 0), (40, 0), (40, 12), (0, 12)] ''  '' (9 / 10)]]))\<rparr>
     (Image ''RGB'' 0)
   = Inr [\<lparr>line_number = 0, line_text = ''  '', confidence = Some (9 / 10),
           r_x = 0, r_y = 0, r_width = 40, r_height = 12\<rparr>]
   \<and> strip ''  '' = []"
  by (simp add: ocr_paddle_def get_paddle_ocr_def try_bind_def paddle_row_def py_min_def py_max_def
        py_int_def strip_def isspace_def)

section \<open>The bounding box of a detection\<close>

lemma py_min_Inr: "py_min vs = Inr m \<Longrightarrow> vs \<noteq> [] \<and> m = Min (set vs)"
  by (cases vs) (auto simp: py_min_def Min.set_eq_fold[symmetric])

lemma py_max_Inr: "py_max vs = Inr m \<Longrightarrow> vs \<noteq> [] \<and> m = Max (set vs)"
  by (cases vs) (auto simp: py_max_def Max.set_eq_fold[symmetric])

lemma py_int_upper: "real_of_int (py_int r) < r + 1"
  unfolding py_int_def by (simp; linarith)

lemma py_int_of_int: "r \<in> \<int> \<Longrightarrow> real_of_int (py_int r) = r"
  by (auto simp: py_int_def elim!: Ints_cases)

lemma py_int_nonneg: "-1 < r \<Longrightarrow> 0 \<le> py_int r"
  unfolding py_int_def by (simp; linarith)

lemma py_int_diff_nonneg:
  assumes "m \<le> M"
  shows "0 \<le> py_int (M - real_of_int (py_int m))"
proof -
  have "real_of_int (py_int m) < M + 1" using py_int_upper[of m] assms by linarith
  then show ?thesis by (intro py_int_nonneg) linarith
qed

lemma paddle_row_box:
  assumes "paddle_row i (Detection box txt conf) = Inr (Some r)"
  shows "box \<noteq> [] \<and>
         r_x r = py_int (Min (fst ` set box)) \<and> r_y r = py_int (Min (snd ` set box)) \<and>
         r_width r = py_int (Max (fst ` set box) - real_of_int (r_x r)) \<and>
         r_height r = py_int (Max (snd ` set box) - real_of_int (r_y r))"
  using assms
  by (auto simp: paddle_row_def try_bind_def Let_def split: if_splits sum.splits
           dest!: py_min_Inr py_max_Inr)

lemma Min_Ints: "finite A \<Longrightarrow> A \<noteq> {} \<Longrightarrow> A \<subseteq> \<int> \<Longrightarrow> Min A \<in> (\<int> :: real set)"
  using Min_in by blast

lemma Max_Ints: "finite A \<Longrightarrow> A \<noteq> {} \<Longrightarrow> A \<subseteq> \<int> \<Longrightarrow> Max A \<in> (\<int> :: real set)"
  using Max_in by blast

lemma envelope_extent:
  fixes A :: "real set"
  assumes "finite A" "A \<noteq> {}"
  shows "0 \<le> py_int (Max A - real_of_int (py_int (Min A)))"
  by (rule py_int_diff_nonneg) (simp add: assms)

lemma envelope_whole:
  fixes A :: "real set"
  assumes "finite A" "A \<noteq> {}" "A \<subseteq> \<int>"
  shows "real_of_int (py_int (Min A)) = Min A"
    and "real_of_int (py_int (Max A - real_of_int (py_int (Min A)))) = Max A - Min A"
    and "py_int (Max A - real_of_int (py_int (Min A))) = 0 \<longleftrightarrow> (\<exists>v. A = {v})"
proof -
  show a: "real_of_int (py_int (Min A)) = Min A"
    using assms by (intro py_int_of_int Min_Ints)
  have "Max A - Min A \<in> \<int>" using assms by (intro Ints_diff Min_Ints Max_Ints)
  then show b: "real_of_int (py_int (Max A - real_of_int (py_int (Min A)))) = Max A - Min A"
    using a by (simp add: py_int_of_int)
  have "py_int (Max A - real_of_int (py_int (Min A))) = 0 \<longleftrightarrow> Max A = Min A"
    using b by (metis diff_self eq_iff_diff_eq_0 of_int_0 of_int_eq_iff)
  also have "\<dots> \<longleftrightarrow> (\<exists>v. A = {v})"
  proof
    assume e: "Max A = Min A"
    have "A = {Min A}"
    proof (rule equalityI; rule subsetI)
      fix x assume "x \<in> A"
      then have "Min A \<le> x" "x \<le> Max A" using assms by auto
      with e show "x \<in> {Min A}" by simp
    next
      fix x assume "x \<in> {Min A}"
      then show "x \<in> A" using assms Min_in by auto
    qed
    then show "\<exists>v. A = {v}" ..
  next
    assume "\<exists>v. A = {v}"
    then show "Max A = Min A" by auto
  qed
  finally show "py_int (Max A - real_of_int (py_int (Min A))) = 0 \<longleftrightarrow> (\<exists>v. A = {v})" .
qed

text \<open>
  C4, as amended. Every row \<^verbatim>\<open>_ocr_paddle\<close> returns comes from a detection with a
  non-empty polygon, and its box is the envelope of the polygon truncated to integers:
  \<open>x = int(min xs)\<close>, \<open>y = int(min ys)\<close>, \<open>width = int(max xs - x)\<close>,
  \<open>height = int(max ys - y)\<close>, where \<open>int\<close> truncates towards zero. Width and height
  are never negative. When the x coordinates are whole numbers, \<open>x\<close> is their minimum,
  \<open>width\<close> is the maximum minus the minimum, and \<open>width\<close> is 0 exactly when all
  points share one x coordinate; likewise for y and \<open>height\<close>.
\<close>

theorem paddle_bounding_box:
  assumes "ocr_paddle eng img = Inr rows" and "r \<in> set rows"
  shows "\<exists>ocr lines more box txt conf.
      paddle_ocr eng = Some ocr \<and> ocr img = Inr (Some (Some lines # more)) \<and>
      index lines (line_number r) = Inr (Detection box txt conf) \<and> box \<noteq> [] \<and>
      r_x r = py_int (Min (fst ` set box)) \<and>
      r_y r = py_int (Min (snd ` set box)) \<and>
      r_width r = py_int (Max (fst ` set box) - real_of_int (r_x r)) \<and>
      r_height r = py_int (Max (snd ` set box) - real_of_int (r_y r)) \<and>
      0 \<le> r_width r \<and> 0 \<le> r_height r \<and>
      (fst ` set box \<subseteq> \<int> \<longrightarrow>
         real_of_int (r_x r) = Min (fst ` set box) \<and>
         real_of_int (r_width r) = Max (fst ` set box) - Min (fst ` set box) \<and>
         (r_width r = 0 \<longleftrightarrow> (\<exists>v. fst ` set box = {v}))) \<and>
      (snd ` set box \<subseteq> \<int> \<longrightarrow>
         real_of_int (r_y r) = Min (snd ` set box) \<and>
         real_of_int (r_height r) = Max (snd ` set box) - Min (snd ` set box) \<and>
         (r_height r = 0 \<longleftrightarrow> (\<exists>v. snd ` set box = {v})))"
proof -
  from ocr_paddle_rows[OF assms] obtain ocr lines more where o: "paddle_ocr eng = Some ocr"
    "ocr img = Inr (Some (Some lines # more))" and i: "line_number r < length lines"
    and pr: "paddle_row (line_number r) (lines ! line_number r) = Inr (Some r)" by blast
  from paddle_row_Some[OF pr] obtain box tx conf where
    l: "lines ! line_number r = Detection box tx conf" by blast
  from pr l have b: "box \<noteq> []"
    and x: "r_x r = py_int (Min (fst ` set box))"
    and y: "r_y r = py_int (Min (snd ` set box))"
    and w: "r_width r = py_int (Max (fst ` set box) - real_of_int (r_x r))"
    and h: "r_height r = py_int (Max (snd ` set box) - real_of_int (r_y r))"
    using paddle_row_box[of "line_number r" box tx conf r] by simp_all
  have fx: "finite (fst ` set box)" "fst ` set box \<noteq> {}"
    and fy: "finite (snd ` set box)" "snd ` set box \<noteq> {}" using b by simp_all
  have w0: "0 \<le> r_width r" unfolding w x by (rule envelope_extent[OF fx])
  have h0: "0 \<le> r_height r" unfolding h y by (rule envelope_extent[OF fy])
  have wx: "fst ` set box \<subseteq> \<int> \<longrightarrow>
         real_of_int (r_x r) = Min (fst ` set box) \<and>
         real_of_int (r_width r) = Max (fst ` set box) - Min (fst ` set box) \<and>
         (r_width r = 0 \<longleftrightarrow> (\<exists>v. fst ` set box = {v}))"
    unfolding w x using envelope_whole[OF fx] by blast
  have hy: "snd ` set box \<subseteq> \<int> \<longrightarrow>
         real_of_int (r_y r) = Min (snd ` set box) \<and>
         real_of_int (r_height r) = Max (snd ` set box) - Min (snd ` set box) \<and>
         (r_height r = 0 \<longleftrightarrow> (\<exists>v. snd ` set box = {v}))"
    unfolding h y using envelope_whole[OF fy] by blast
  have "index lines (line_number r) = Inr (Detection box tx conf)"
    using i l by (simp add: index_def)
  with o b x y w h w0 h0 wx hy show ?thesis by blast
qed

theorem paddle_bounding_box_witness:
  "ocr_paddle \<lparr>image_to_data = (\<lambda>i. Inl (EngineError [])), float_of_str = (\<lambda>s. None),
       paddle_ocr = Some (\<lambda>i. Inr (Some [Some [Detection [(10, 20), (50, 20), (50, 32), (10, 32)] ''ab'' (9 / 10)]]))\<rparr>
     (Image ''RGB'' 0)
   = Inr [\<lparr>line_number = 0, line_text = ''ab'', confidence = Some (9 / 10),
           r_x = 10, r_y = 20, r_width = 40, r_height = 12\<rparr>]
   \<and> 0 \<le> r_width \<lparr>line_number = 0, line_text = ''ab'', confidence = Some (9 / 10),
           r_x = 10, r_y = 20, r_width = 40, r_height = (12 :: int)\<rparr>"
proof -
  let ?E = "\<lparr>image_to_data = (\<lambda>i. Inl (EngineError [])), float_of_str = (\<lambda>s. None),
       paddle_ocr = Some (\<lambda>i. Inr (Some [Some [Detection [(10, 20), (50, 20), (50, 32), (10, 32)] ''ab'' (9 / 10)]]))\<rparr>"
  let ?R = "\<lparr>line_number = 0, line_text = ''ab'', confidence = Some (9 / 10),
           r_x = 10, r_y = 20, r_width = 40, r_height = 12\<rparr>"
  have h1: "ocr_paddle ?E (Image ''RGB'' 0) = Inr [?R]"
    by (simp add: ocr_paddle_def get_paddle_ocr_def try_bind_def paddle_row_def py_min_def py_max_def
        py_int_def)
  have h2: "?R \<in> set [?R]" by simp
  from paddle_bounding_box[OF h1 h2] have "0 \<le> r_width ?R"
    by blast
  with h1 show ?thesis by simp
qed

text \<open>
  The claim as stated fails on fractional coordinates: the polygon with x coordinates
  1/2 and 3/4 gets \<open>x = 0\<close>, which is not the minimum 1/2, and \<open>width = 0\<close>
  although its points do not share an x coordinate.
\<close>

theorem paddle_bounding_box_counterexample:
  "ocr_paddle \<lparr>image_to_data = (\<lambda>i. Inl (EngineError [])), float_of_str = (\<lambda>s. None),
       paddle_ocr = Some (\<lambda>i. Inr (Some [Some [Detection [(1 / 2, 0), (3 / 4, 0), (3 / 4, 8), (1 / 2, 8)] ''ab'' (9 / 10)]]))\<rparr>
     (Image ''RGB'' 0)
   = Inr [\<lparr>line_number = 0, line_text = ''ab'', confidence = Some (9 / 10),
           r_x = 0, r_y = 0, r_width = 0, r_height = 8\<rparr>]
   \<and> (1 / 2 :: real) \<noteq> 3 / 4 \<and> real_of_int 0 \<noteq> Min (fst ` set [(1 / 2 :: real, 0 :: real), (3 / 4, 0), (3 / 4, 8), (1 / 2, 8)])"
  by (simp add: ocr_paddle_def get_paddle_ocr_def try_bind_def paddle_row_def py_min_def py_max_def
        py_int_def)

section \<open>The confidence of a row\<close>

lemma tess_conf_cases:
  "tess_conf parse c = Inr cf \<Longrightarrow>
     (c = PyStr ''-1'' \<longrightarrow> cf = None) \<and>
     (c \<noteq> PyStr ''-1'' \<longrightarrow> (\<exists>v. py_float parse c = Inr v \<and> cf = Some v))"
  by (auto simp: tess_conf_def try_bind_def py_float_def split: if_splits sum.splits)

text \<open>
  C7. What the engines report: the layout engine gives a text that is not blank a
  confidence in [0, 100], or the sentinel \<^verbatim>\<open>"-1"\<close> for none (the rows of pages,
  blocks, paragraphs and lines carry the sentinel beside an empty text, and the adapter
  drops them whatever their cell holds); the detector gives a detection a confidence in
  [0, 100]. Then the confidence of every row of either adapter is absent or in
  [0, 100], and a row of \<^verbatim>\<open>_ocr_tesseract\<close> whose cell of the \<^verbatim>\<open>conf\<close> column is
  the sentinel has no confidence.
\<close>

theorem confidence_in_range:
  assumes "ocr_page eng engine img = Inr rows" and "r \<in> set rows"
    and "\<And>d i c. image_to_data eng img = Inr d \<Longrightarrow> i < length (d_text d) \<Longrightarrow>
           strip (d_text d ! i) \<noteq> [] \<Longrightarrow> index (d_conf d) i = Inr c \<Longrightarrow>
           c = PyStr ''-1'' \<or> (\<exists>v. py_float (float_of_str eng) c = Inr v \<and> 0 \<le> v \<and> v \<le> 100)"
    and "\<And>ocr lines more i box tx conf. paddle_ocr eng = Some ocr \<Longrightarrow>
           ocr img = Inr (Some (Some lines # more)) \<Longrightarrow>
           index lines i = Inr (Detection box tx conf) \<Longrightarrow> 0 \<le> conf \<and> conf \<le> 100"
  shows "(confidence r = None \<or> (\<exists>v. confidence r = Some v \<and> 0 \<le> v \<and> v \<le> 100)) \<and>
         (engine = tesseract \<longrightarrow>
            (\<exists>d c. image_to_data eng img = Inr d \<and> index (d_conf d) (line_number r) = Inr c \<and>
                   (c = PyStr ''-1'' \<longrightarrow> confidence r = None)))"
proof (cases engine)
  case tesseract
  with assms(1) have t: "ocr_tesseract eng img = Inr rows" by (simp add: ocr_page_def)
  from ocr_tesseract_rows[OF t assms(2)] obtain d where d: "image_to_data eng img = Inr d"
    and i: "line_number r < length (d_text d)"
    and tr: "tess_row (float_of_str eng) d (line_number r) = Inr (Some r)" by blast
  from tess_row_Some[OF tr] obtain c where c: "index (d_conf d) (line_number r) = Inr c"
    and tc: "tess_conf (float_of_str eng) c = Inr (confidence r)"
    and tx: "strip (d_text d ! line_number r) \<noteq> []" by auto
  from assms(3)[OF d i tx c]
  have rng: "c = PyStr ''-1'' \<or> (\<exists>v. py_float (float_of_str eng) c = Inr v \<and> 0 \<le> v \<and> v \<le> 100)" .
  from tess_conf_cases[OF tc] have s: "c = PyStr ''-1'' \<longrightarrow> confidence r = None"
    and n: "c \<noteq> PyStr ''-1'' \<longrightarrow>
              (\<exists>v. py_float (float_of_str eng) c = Inr v \<and> confidence r = Some v)"
    by simp_all
  have "confidence r = None \<or> (\<exists>v. confidence r = Some v \<and> 0 \<le> v \<and> v \<le> 100)"
  proof (cases "c = PyStr ''-1''")
    case True
    with s show ?thesis by simp
  next
    case False
    with rng n show ?thesis by auto
  qed
  with d c s tesseract show ?thesis by blast
next
  case paddle
  with assms(1) have p: "ocr_paddle eng img = Inr rows" by (simp add: ocr_page_def)
  from ocr_paddle_rows[OF p assms(2)] obtain ocr lines more where o: "paddle_ocr eng = Some ocr"
    "ocr img = Inr (Some (Some lines # more))" and i: "line_number r < length lines"
    and pr: "paddle_row (line_number r) (lines ! line_number r) = Inr (Some r)" by blast
  from paddle_row_Some[OF pr] obtain box tx conf where
    l: "lines ! line_number r = Detection box tx conf" and cf: "confidence r = Some conf" by blast
  have "index lines (line_number r) = Inr (Detection box tx conf)"
    using i l by (simp add: index_def)
  from assms(4)[OF o(1) o(2) this] have "0 \<le> conf \<and> conf \<le> 100" .
  with cf paddle show ?thesis by simp
qed

theorem confidence_in_range_witness:
  "ocr_page \<lparr>image_to_data = (\<lambda>i. Inr \<lparr>d_text = ['''', ''Total''], d_conf = [PyNum (- 1), PyNum 96],
                   d_left = [0, 12], d_top = [0, 30], d_width = [640, 55], d_height = [480, 14]\<rparr>),
              float_of_str = (\<lambda>s. None),
              paddle_ocr = Some (\<lambda>i. Inr (Some [Some [Detection [(0, 0), (40, 0), (40, 12), (0, 12)]
                                                      ''Total'' (9 / 10)]]))\<rparr>
      tesseract (Image ''RGB'' 0)
     = Inr [\<lparr>line_number = 1, line_text = ''Total'', confidence = Some 96,
             r_x = 12, r_y = 30, r_width = 55, r_height = 14\<rparr>]
   \<and> (\<exists>v. confidence \<lparr>line_number = 1, line_text = ''Total'', confidence = Some 96,
             r_x = 12, r_y = 30, r_width = 55, r_height = (14 :: int)\<rparr> = Some v \<and> 0 \<le> v \<and> v \<le> 100)"
proof -
  let ?D = "\<lparr>d_text = ['''', ''Total''], d_conf = [PyNum (- 1), PyNum 96],
                   d_left = [0, 12], d_top = [0, 30], d_width = [640, 55], d_height = [480, 14]\<rparr>"
  let ?E = "\<lparr>image_to_data = (\<lambda>i. Inr ?D),
              float_of_str = (\<lambda>s. None),
              paddle_ocr = Some (\<lambda>i. Inr (Some [Some [Detection [(0, 0), (40, 0), (40, 12), (0, 12)]
                                                      ''Total'' (9 / 10)]]))\<rparr>"
  let ?I = "Image ''RGB'' 0"
  let ?R = "\<lparr>line_number = 1, line_text = ''Total'', confidence = Some 96,
             r_x = 12, r_y = 30, r_width = 55, r_height = 14\<rparr>"
  have h1: "ocr_page ?E tesseract ?I = Inr [?R]"
    by (simp add: ocr_page_def ocr_tesseract_def try_bind_def tess_row_def tess_conf_def py_float_def
          index_def strip_def isspace_def upt_rec)
  have h2: "?R \<in> set [?R]" by simp
  have h3: "c = PyStr ''-1'' \<or> (\<exists>v. py_float (float_of_str ?E) c = Inr v \<and> 0 \<le> v \<and> v \<le> 100)"
    if "image_to_data ?E ?I = Inr d" "i < length (d_text d)" "strip (d_text d ! i) \<noteq> []"
       "index (d_conf d) i = Inr c" for d i c
  proof -
    from that(1) have d: "d = ?D" by simp
    with that(2) have "i = 0 \<or> i = 1" by auto
    then show ?thesis
    proof
      assume "i = 0"
      with that(3) d show ?thesis by (simp add: strip_def)
    next
      assume "i = 1"
      with that(4) d have "c = PyNum 96" by (simp add: index_def)
      then have "py_float (float_of_str ?E) c = Inr 96 \<and> (0 :: real) \<le> 96 \<and> (96 :: real) \<le> 100"
        by (simp add: py_float_def)
      then show ?thesis by blast
    qed
  qed
  have h4: "0 \<le> conf \<and> conf \<le> 100"
    if "paddle_ocr ?E = Some ocr" "ocr ?I = Inr (Some (Some lines # more))"
       "index lines i = Inr (Detection box tx conf)" for ocr lines more i box tx conf
  proof -
    from that(1,2) have "lines = [Detection [(0, 0), (40, 0), (40, 12), (0, 12)] ''Total'' (9 / 10)]"
      by auto
    with that(3) show ?thesis by (auto simp: index_def split: if_splits)
  qed
  from confidence_in_range[OF h1 h2 h3 h4]
  have "\<exists>v. confidence ?R = Some v \<and> 0 \<le> v \<and> v \<le> 100" by simp
  with h1 show ?thesis by simp
qed

section \<open>Concrete inputs\<close>

text \<open>
  A working directory with a two-frame TIFF and a text file; engines of which the layout
  engine reads the first frame and fails on every other image, and the detector finds
  nothing; a session whose bulk insert fails at its second row; a directory with a
  one-frame TIFF; a table of three rows.
\<close>

definition ex_env :: os_env where
  "ex_env = \<lparr>cwd = ''/srv/app'',
             files = (\<lambda>p. if p = ''/srv/app/uploads/scan.tiff''
                           then Some (TiffDoc [Image ''L'' 7, Image ''P'' 8])
                         else if p = ''/srv/app/notes.txt'' then Some Garbage
                         else None)\<rparr>"

definition ex_engines :: engines where
  "ex_engines =
     \<lparr>image_to_data = (\<lambda>i.
          if i = Image ''RGB'' 7
          then Inr \<lparr>d_text = ['''', ''Total'', ''42''], d_conf = [PyStr ''-1'', PyNum 96, PyNum 91],
                    d_left = [0, 12, 80], d_top = [0, 30, 30], d_width = [640, 55, 20],
                    d_height = [480, 14, 14]\<rparr>
          else Inl (EngineError ''tesseract failed'')),
      float_of_str = (\<lambda>s. None),
      paddle_ocr = Some (\<lambda>i. Inr (Some [None]))\<rparr>"

definition ex_session :: session where
  "ex_session = \<lparr>stored = [], pending = [], insert_fails_at = Some 1, commit_fails = False\<rparr>"

definition ex_env1 :: os_env where
  "ex_env1 = \<lparr>cwd = ''/srv/app'',
             files = (\<lambda>p. if p = ''/srv/app/uploads/one.tiff''
                           then Some (TiffDoc [Image ''L'' 7]) else None)\<rparr>"

definition ex_table :: session where
  "ex_table = \<lparr>stored =
      [\<lparr>c_id = 1, c_file_name = ''a.pdf'', c_page_number = 2, c_line_number = 0, c_line_text = ''x'',
        c_x = 0, c_y = 0, c_width = 5, c_height = 5\<rparr>,
       \<lparr>c_id = 2, c_file_name = ''b.pdf'', c_page_number = 1, c_line_number = 0, c_line_text = ''y'',
        c_x = 0, c_y = 0, c_width = 5, c_height = 5\<rparr>,
       \<lparr>c_id = 3, c_file_name = ''a.pdf'', c_page_number = 1, c_line_number = 4, c_line_text = ''z'',
        c_x = 0, c_y = 0, c_width = 5, c_height = 5\<rparr>],
     pending = [], insert_fails_at = None, commit_fails = False\<rparr>"

lemma ex_pages:
  "fst (images_from_file ex_env ''uploads/scan.tiff'') = Inr [(1, Image ''RGB'' 7), (2, Image ''RGB'' 8)]"
  by code_simp

section \<open>Page extraction\<close>

declare tiff_loop.simps [simp del]

lemma tiff_loop_frames:
  "i \<le> length im \<Longrightarrow>
     tiff_loop im i images = Inr (images @ map (\<lambda>j. (Suc j, convert_RGB (im ! j))) [i..<length im])"
proof (induction im i images rule: tiff_loop.induct)
  case (1 im i images)
  show ?case
  proof (cases "i < length im")
    case True
    then have s: "seek im i = Inr (im ! i)" by (simp add: seek_def)
    from True have "Suc i \<le> length im" by simp
    with "1.IH"[OF s] have
      "tiff_loop im (i + 1) (images @ [(i + 1, convert_RGB (im ! i))]) =
         Inr ((images @ [(i + 1, convert_RGB (im ! i))]) @
              map (\<lambda>j. (Suc j, convert_RGB (im ! j))) [Suc i..<length im])"
      by simp
    then show ?thesis
      using True s by (subst tiff_loop.simps) (simp add: upt_conv_Cons)
  next
    case False
    with "1.prems" have "i = length im" by simp
    then show ?thesis
      by (subst tiff_loop.simps) (simp add: seek_def)
  qed
qed

lemma images_from_tiff_frames:
  assumes "files env p = Some (TiffDoc frames)"
  shows "images_from_tiff env p = Inr (zip [1..<Suc (length frames)] (map convert_RGB frames))"
proof -
  have "images_from_tiff env p = Inr (map (\<lambda>j. (Suc j, convert_RGB (frames ! j))) [0..<length frames])"
    using assms tiff_loop_frames[of 0 frames "[]"]
    by (simp add: images_from_tiff_def image_open_def)
  also have "map (\<lambda>j. (Suc j, convert_RGB (frames ! j))) [0..<length frames]
      = zip [1..<Suc (length frames)] (map convert_RGB frames)"
    by (rule nth_equalityI) (simp_all del: upt_Suc)
  finally show ?thesis .
qed

text \<open>
  C3. For a TIFF file with the frames \<open>frames\<close> (the path exists and its extension is
  \<^verbatim>\<open>.tif\<close> or \<^verbatim>\<open>.tiff\<close>, whatever the case of its letters),
  \<^verbatim>\<open>_images_from_file\<close> returns, without raising, one pair per frame, numbered
  1, 2, ..., N in this order, each frame converted to RGB. The loop counts from 0 and stops
  at the EOFError of \<^verbatim>\<open>seek\<close>; that it stops is the termination proof of
  \<open>tiff_loop\<close>.
\<close>

theorem tiff_pages:
  assumes "files env (abspath env path) = Some (TiffDoc frames)"
    and "lower (snd (splitext (abspath env path))) = ''.tif''
         \<or> lower (snd (splitext (abspath env path))) = ''.tiff''"
  shows "\<exists>images. fst (images_from_file env path) = Inr images \<and>
           length images = length frames \<and>
           map fst images = [1..<Suc (length frames)] \<and>
           map snd images = map convert_RGB frames"
proof -
  have "fst (images_from_file env path) = images_from_tiff env (abspath env path)"
    using assms by (auto simp: images_from_file_def Let_def path_exists_def)
  with images_from_tiff_frames[OF assms(1)] show ?thesis by (simp del: upt_Suc)
qed

theorem tiff_pages_witness:
  "files ex_env (abspath ex_env ''uploads/scan.tiff'') = Some (TiffDoc [Image ''L'' 7, Image ''P'' 8]) \<and>
   (\<exists>images. fst (images_from_file ex_env ''uploads/scan.tiff'') = Inr images \<and>
      length images = 2 \<and> map fst images = [1, 2])"
proof -
  have h1: "files ex_env (abspath ex_env ''uploads/scan.tiff'') = Some (TiffDoc [Image ''L'' 7, Image ''P'' 8])"
    by code_simp
  have h2: "lower (snd (splitext (abspath ex_env ''uploads/scan.tiff''))) = ''.tif''
         \<or> lower (snd (splitext (abspath ex_env ''uploads/scan.tiff''))) = ''.tiff''"
    by code_simp
  from tiff_pages[OF h1 h2] h1 show ?thesis by (auto simp: upt_rec numeral_2_eq_2)
qed

text \<open>
  C8, as amended. For a path whose extension is none of \<^verbatim>\<open>.pdf\<close>, \<^verbatim>\<open>.tif\<close>,
  \<^verbatim>\<open>.tiff\<close>: if the file exists, \<^verbatim>\<open>_images_from_file\<close> raises the ValueError for an
  unsupported format, and the existence check is the only file system call it has made
  (the file is neither opened nor read); if the file does not exist, it raises
  FileNotFoundError, whatever the extension.
\<close>

theorem unsupported_extension:
  assumes "lower (snd (splitext (abspath env path))) \<noteq> ''.pdf''"
    and "lower (snd (splitext (abspath env path))) \<noteq> ''.tif''"
    and "lower (snd (splitext (abspath env path))) \<noteq> ''.tiff''"
  shows "images_from_file env path =
     (if path_exists env (abspath env path)
      then (Inl (ValueError ''Unsupported file format. Only PDF and TIFF are supported.''),
            [Exists (abspath env path)])
      else (Inl (FileNotFoundError (abspath env path)), [Exists (abspath env path)]))"
  using assms by (simp add: images_from_file_def Let_def)

theorem unsupported_extension_witness:
  "images_from_file ex_env ''notes.txt'' =
     (Inl (ValueError ''Unsupported file format. Only PDF and TIFF are supported.''),
      [Exists ''/srv/app/notes.txt''])"
proof -
  have h1: "lower (snd (splitext (abspath ex_env ''notes.txt''))) \<noteq> ''.pdf''" by code_simp
  have h2: "lower (snd (splitext (abspath ex_env ''notes.txt''))) \<noteq> ''.tif''" by code_simp
  have h3: "lower (snd (splitext (abspath ex_env ''notes.txt''))) \<noteq> ''.tiff''" by code_simp
  have a: "abspath ex_env ''notes.txt'' = ''/srv/app/notes.txt''" by code_simp
  have e: "path_exists ex_env ''/srv/app/notes.txt''" by code_simp
  from unsupported_extension[OF h1 h2 h3] show ?thesis by (simp add: a e)
qed

text \<open>
  The claim as stated fails for a path that does not exist: \<^verbatim>\<open>scan.png\<close> has an
  unsupported extension, and the call raises FileNotFoundError, after the existence check
  on the file.
\<close>

theorem unsupported_extension_counterexample:
  "lower (snd (splitext (abspath ex_env ''scan.png''))) = ''.png'' \<and>
   images_from_file ex_env ''scan.png'' =
     (Inl (FileNotFoundError ''/srv/app/scan.png''), [Exists ''/srv/app/scan.png''])"
  by code_simp

section \<open>The run over a document\<close>

lemma ocr_pages_fails:
  assumes "list_all (\<lambda>(p, i). \<not> isl (ocr_page eng engine i)) pre"
    and "ocr_page eng engine img = Inl e"
  shows "ocr_pages eng engine name (pre @ (pn, img) # post) acc = Inl (OCRFailedOnPage pn e)"
  using assms
proof (induction pre arbitrary: acc)
  case Nil
  then show ?case by simp
next
  case (Cons a pre)
  obtain p i where a: "a = (p, i)" by (cases a)
  with Cons.prems obtain rows where "ocr_page eng engine i = Inr rows"
    by (cases "ocr_page eng engine i") auto
  with Cons a show ?case by simp
qed

text \<open>
  C5. When the adapter raises \<open>e\<close> on the page numbered \<open>pn\<close>, every page before it
  having been read, \<^verbatim>\<open>run_ocr_on_file\<close> raises the error that wraps \<open>e\<close> with
  \<open>pn\<close>, and the session is the one it was given: nothing was inserted, committed or
  rolled back, also not the rows of the earlier pages.
\<close>

theorem page_failure_aborts:
  assumes "fst (images_from_file env path) = Inr (pre @ (pn, img) # post)"
    and "list_all (\<lambda>(p, i). \<not> isl (ocr_page eng engine i)) pre"
    and "ocr_page eng engine img = Inl e"
  shows "run_ocr_on_file env eng path name engine db = (Inl (OCRFailedOnPage pn e), db)"
  using assms(1) ocr_pages_fails[OF assms(2,3)]
  by (simp add: run_ocr_on_file_def)

theorem page_failure_aborts_witness:
  "run_ocr_on_file ex_env ex_engines ''uploads/scan.tiff'' ''scan.tiff'' tesseract (Some ex_session) =
     (Inl (OCRFailedOnPage 2 (EngineError ''tesseract failed'')), Some ex_session)"
proof -
  have h1: "fst (images_from_file ex_env ''uploads/scan.tiff'') =
      Inr ([(1, Image ''RGB'' 7)] @ (2, Image ''RGB'' 8) # [])"
    using ex_pages by simp
  have h2: "list_all (\<lambda>(p, i). \<not> isl (ocr_page ex_engines tesseract i)) [(1, Image ''RGB'' 7)]"
    by code_simp
  have h3: "ocr_page ex_engines tesseract (Image ''RGB'' 8) = Inl (EngineError ''tesseract failed'')"
    by code_simp
  from page_failure_aborts[OF h1 h2 h3] show ?thesis .
qed

lemma ocr_pages_no_rows:
  "list_all (\<lambda>(p, i). ocr_page eng engine i = Inr []) images \<Longrightarrow>
     ocr_pages eng engine name images acc = Inr acc"
  by (induction images arbitrary: acc) auto

text \<open>
  C6. When every page is read without error and yields no row, \<^verbatim>\<open>run_ocr_on_file\<close>
  returns \<open>(0, number of pages)\<close> and leaves the session as it was: no insert, no
  commit, no exception.
\<close>

theorem empty_batch_returns_zero:
  assumes "fst (images_from_file env path) = Inr images"
    and "list_all (\<lambda>(p, i). ocr_page eng engine i = Inr []) images"
  shows "run_ocr_on_file env eng path name engine db = (Inr (0, length images), db)"
  using assms(1) ocr_pages_no_rows[OF assms(2)]
  by (simp add: run_ocr_on_file_def split: option.splits)

theorem empty_batch_returns_zero_witness:
  "run_ocr_on_file ex_env ex_engines ''uploads/scan.tiff'' ''scan.tiff'' paddle (Some ex_session) =
     (Inr (0, 2), Some ex_session)"
proof -
  have h2: "list_all (\<lambda>(p, i). ocr_page ex_engines paddle i = Inr [])
      [(1, Image ''RGB'' 7), (2, Image ''RGB'' 8)]"
    by code_simp
  from empty_batch_returns_zero[OF ex_pages h2] show ?thesis by simp
qed

lemma persist_cases:
  "persist s batch =
     (if (case insert_fails_at s of None \<Rightarrow> False | Some k \<Rightarrow> k < length batch)
      then (Inl (EngineError ''bulk insert failed''), s\<lparr>pending := []\<rparr>)
      else if commit_fails s
      then (Inl (EngineError ''commit failed''), s\<lparr>pending := []\<rparr>)
      else (Inr (length batch),
            s\<lparr>stored := stored s @ pending s @
                  map (\<lambda>(n, m). to_db_row n m)
                    (enumerate (Suc (length (stored s) + length (pending s))) batch),
               pending := []\<rparr>))"
  by (auto simp: persist_def bulk_insert_mappings_def commit_def rollback_def Let_def
           split: option.splits)

text \<open>
  C2. With a session and a non-empty batch, \<^verbatim>\<open>run_ocr_on_file\<close> makes one bulk insert
  and one commit. If the insert raises (at any row \<open>k\<close> of the batch) or the commit
  raises, the exception is the result, and the session has been rolled back: its
  committed rows are those from before the call and no row is pending. Otherwise the
  result is the size of the batch with the page count, and the committed rows are the
  earlier ones followed by the whole batch.
\<close>

theorem persistence_is_atomic:
  assumes "fst (images_from_file env path) = Inr images"
    and "ocr_pages eng engine name images [] = Inr batch"
    and "batch \<noteq> []"
  shows "run_ocr_on_file env eng path name engine (Some s) =
     (if (case insert_fails_at s of None \<Rightarrow> False | Some k \<Rightarrow> k < length batch)
      then (Inl (EngineError ''bulk insert failed''), Some (s\<lparr>pending := []\<rparr>))
      else if commit_fails s
      then (Inl (EngineError ''commit failed''), Some (s\<lparr>pending := []\<rparr>))
      else (Inr (length batch, length images),
            Some (s\<lparr>stored := stored s @ pending s @
                  map (\<lambda>(n, m). to_db_row n m)
                    (enumerate (Suc (length (stored s) + length (pending s))) batch),
               pending := []\<rparr>)))"
  using assms by (simp add: run_ocr_on_file_def persist_cases)

theorem persistence_is_atomic_witness:
  "run_ocr_on_file ex_env1 ex_engines ''uploads/one.tiff'' ''one.tiff'' tesseract (Some ex_session) =
     (Inl (EngineError ''bulk insert failed''), Some ex_session)"
proof -
  let ?batch = "[\<lparr>line_number = 1, line_text = ''Total'', confidence = Some 96,
                   r_x = 12, r_y = 30, r_width = 55, r_height = 14,
                   file_name = ''one.tiff'', page_number = 1\<rparr>,
                 \<lparr>line_number = 2, line_text = ''42'', confidence = Some 91,
                   r_x = 80, r_y = 30, r_width = 20, r_height = 14,
                   file_name = ''one.tiff'', page_number = 1\<rparr>]"
  have h1: "fst (images_from_file ex_env1 ''uploads/one.tiff'') = Inr [(1, Image ''RGB'' 7)]"
    by code_simp
  have h2: "ocr_pages ex_engines tesseract ''one.tiff'' [(1, Image ''RGB'' 7)] [] = Inr ?batch"
    by (simp add: ocr_page_def ocr_tesseract_def ex_engines_def try_bind_def tess_row_def
          tess_conf_def py_float_def index_def strip_def isspace_def upt_rec tag_def)
  have h3: "?batch \<noteq> []" by simp
  from persistence_is_atomic[OF h1 h2 h3, of ex_session] show ?thesis
    by (simp add: ex_session_def)
qed

section \<open>Paginated results\<close>

lemma get_results_valid:
  assumes "case page_no of None \<Rightarrow> True | Some p \<Rightarrow> 1 \<le> p \<and> p < 2 ^ 63"
    and "limit = (case limit_arg of None \<Rightarrow> 50 | Some l \<Rightarrow> l)"
    and "offset = (case offset_arg of None \<Rightarrow> 0 | Some off \<Rightarrow> off)"
    and "1 \<le> limit" "limit \<le> 500" "0 \<le> offset" "offset < 2 ^ 63"
    and "matching = filter (\<lambda>r. c_file_name r = fname \<and>
            (case page_no of None \<Rightarrow> True | Some p \<Rightarrow> int (c_page_number r) = p)) (stored db)"
  shows "get_results scan db fname page_no limit_arg offset_arg =
     Inr \<lparr>total = length matching,
          items = take (nat limit) (drop (nat offset) (order_by scan matching))\<rparr>"
proof -
  have l: "fits_int64 limit" using assms(4,5) by (simp add: fits_int64_def)
  have o: "fits_int64 offset" using assms(6,7) by (simp add: fits_int64_def)
  show ?thesis
  proof (cases page_no)
    case None
    with assms l o show ?thesis by (simp add: get_results_def Let_def)
  next
    case (Some p)
    with assms have p: "p \<noteq> 0" "\<not> p < 1" "fits_int64 p" by (simp_all add: fits_int64_def)
    with assms Some l o show ?thesis
      by (simp add: get_results_def Let_def conj_commute)
  qed
qed

text \<open>
  C9, as amended. For a query whose parameters pass the bounds of the endpoint and fit
  the integers of the SQL layer (page number absent or in [1, 2^63), limit in [1, 500] or
  absent for 50, offset in [0, 2^63) or absent for 0), \<^verbatim>\<open>get_results\<close> returns the
  number of all rows of the file name (and page number, if given), and as items the rows
  from position \<open>offset\<close> on, at most \<open>limit\<close> of them, of those rows put in
  ascending order of \<open>(page_number, line_number)\<close>, whatever order the engine gives to
  rows with equal keys.
\<close>

theorem get_results_page:
  assumes "case page_no of None \<Rightarrow> True | Some p \<Rightarrow> 1 \<le> p \<and> p < 2 ^ 63"
    and "limit = (case limit_arg of None \<Rightarrow> 50 | Some l \<Rightarrow> l)"
    and "offset = (case offset_arg of None \<Rightarrow> 0 | Some off \<Rightarrow> off)"
    and "1 \<le> limit" "limit \<le> 500" "0 \<le> offset" "offset < 2 ^ 63"
    and "matching = filter (\<lambda>r. c_file_name r = fname \<and>
            (case page_no of None \<Rightarrow> True | Some p \<Rightarrow> int (c_page_number r) = p)) (stored db)"
    and "mset (scan matching) = mset matching"
  shows "\<exists>res ordered. get_results scan db fname page_no limit_arg offset_arg = Inr res \<and>
           total res = length matching \<and>
           mset ordered = mset matching \<and>
           sorted (map (\<lambda>r. (c_page_number r, c_line_number r)) ordered) \<and>
           items res = take (nat limit) (drop (nat offset) ordered) \<and>
           length (items res) \<le> nat limit \<and>
           sorted (map (\<lambda>r. (c_page_number r, c_line_number r)) (items res))"
proof -
  let ?key = "\<lambda>r. (c_page_number r, c_line_number r)"
  let ?ordered = "order_by scan matching"
  let ?items = "take (nat limit) (drop (nat offset) ?ordered)"
  have g: "get_results scan db fname page_no limit_arg offset_arg =
      Inr \<lparr>total = length matching, items = ?items\<rparr>"
    by (rule get_results_valid[OF assms(1-8)])
  have s: "sorted (map ?key ?ordered)" unfolding order_by_def by (rule sorted_sort_key)
  have "map ?key ?items = take (nat limit) (drop (nat offset) (map ?key ?ordered))"
    by (simp add: take_map drop_map)
  with s have si: "sorted (map ?key ?items)"
    by (simp add: sorted_wrt_take sorted_wrt_drop)
  have m: "mset ?ordered = mset matching" unfolding order_by_def using assms(9) by simp
  have "get_results scan db fname page_no limit_arg offset_arg = Inr \<lparr>total = length matching, items = ?items\<rparr> \<and>
        total \<lparr>total = length matching, items = ?items\<rparr> = length matching \<and>
        mset ?ordered = mset matching \<and> sorted (map ?key ?ordered) \<and>
        items \<lparr>total = length matching, items = ?items\<rparr> = ?items \<and>
        length (items \<lparr>total = length matching, items = ?items\<rparr>) \<le> nat limit \<and>
        sorted (map ?key (items \<lparr>total = length matching, items = ?items\<rparr>))"
    using g s si m by simp
  then show ?thesis by blast
qed

theorem get_results_page_witness:
  "\<exists>res. get_results rev ex_table ''a.pdf'' None None (Some 1) = Inr res \<and> total res = 2 \<and>
      map c_id (items res) = [1]"
proof -
  let ?r1 = "\<lparr>c_id = 1, c_file_name = ''a.pdf'', c_page_number = 2, c_line_number = 0, c_line_text = ''x'',
        c_x = 0, c_y = 0, c_width = 5, c_height = 5\<rparr>"
  let ?r3 = "\<lparr>c_id = 3, c_file_name = ''a.pdf'', c_page_number = 1, c_line_number = 4, c_line_text = ''z'',
        c_x = 0, c_y = 0, c_width = 5, c_height = 5\<rparr>"
  have h1: "case (None :: int option) of None \<Rightarrow> True | Some p \<Rightarrow> 1 \<le> p \<and> p < 2 ^ 63" by simp
  have h2: "(50 :: int) = (case (None :: int option) of None \<Rightarrow> 50 | Some l \<Rightarrow> l)" by simp
  have h3: "(1 :: int) = (case Some 1 of None \<Rightarrow> 0 | Some off \<Rightarrow> off)" by simp
  have h4: "(1 :: int) \<le> 50" and h5: "(50 :: int) \<le> 500" and h6: "(0 :: int) \<le> 1"
    and h7: "(1 :: int) < 2 ^ 63" by simp_all
  have h8: "[?r1, ?r3] = filter (\<lambda>r. c_file_name r = ''a.pdf'' \<and>
            (case (None :: int option) of None \<Rightarrow> True | Some p \<Rightarrow> int (c_page_number r) = p)) (stored ex_table)"
    by (simp add: ex_table_def)
  have h9: "mset (rev [?r1, ?r3]) = mset [?r1, ?r3]" by simp
  from get_results_page[where scan = rev, OF h1 h2 h3 h4 h5 h6 h7 h8 h9]
  obtain res ordered where r: "get_results rev ex_table ''a.pdf'' None None (Some 1) = Inr res"
    "total res = 2" "mset ordered = mset [?r1, ?r3]"
    "sorted (map (\<lambda>r. (c_page_number r, c_line_number r)) ordered)"
    "items res = take (nat 50) (drop (nat 1) ordered)"
    by auto
  have e: "get_results rev ex_table ''a.pdf'' None None (Some 1) = Inr \<lparr>total = 2, items = [?r1]\<rparr>"
    by (simp add: get_results_def fits_int64_def order_by_def ex_table_def insort_key.simps)
  with r(1,2) show ?thesis by auto
qed

text \<open>
  The claim as stated fails at an offset, and at a page number, that the integers of the
  SQL layer do not hold: both pass the bounds of the endpoint, and the query raises.
\<close>

theorem get_results_counterexample:
  "(0 :: int) \<le> 2 ^ 63 \<and>
   get_results id ex_table ''a.pdf'' None None (Some (2 ^ 63))
     = Inl (HTTPException 500 ''Internal Server Error'') \<and>
   (1 :: int) \<le> 2 ^ 63 \<and>
   get_results id ex_table ''a.pdf'' (Some (2 ^ 63)) None None
     = Inl (HTTPException 500 ''Internal Server Error'')"
  by (simp add: get_results_def fits_int64_def)

section \<open>The extension of a saved upload\<close>

text \<open>
  A file name without separator that is not \<open>.\<close> or \<open>..\<close> stays the last
  component of a path through \<^verbatim>\<open>join\<close>, \<^verbatim>\<open>abspath\<close> and \<^verbatim>\<open>normpath\<close>;
  \<^verbatim>\<open>splitext\<close> then finds the extension in it.
\<close>

lemma split_sep_nonempty: "split_sep c s \<noteq> []"
  by (induction s) (auto split: list.splits)

lemma split_sep_notin: "c \<notin> set s \<Longrightarrow> split_sep c s = [s]"
  by (induction s) auto

lemma split_sep_append: "split_sep c (a @ c # b) = split_sep c a @ split_sep c b"
proof (induction a)
  case Nil
  show ?case by simp
next
  case (Cons x a)
  show ?case
  proof (cases "x = c")
    case True
    with Cons show ?thesis by simp
  next
    case False
    obtain w ws where "split_sep c a = w # ws"
      using split_sep_nonempty[of c a] by (cases "split_sep c a") auto
    with Cons False show ?thesis by simp
  qed
qed

lemma split_sep_last:
  assumes "c \<notin> set name" and "pre = [] \<or> last pre = c"
  shows "\<exists>cs. split_sep c (pre @ name) = cs @ [name]"
proof (cases "pre = []")
  case True
  with assms show ?thesis by (simp add: split_sep_notin)
next
  case False
  with assms obtain a where "pre = a @ [c]"
    by (metis append_butlast_last_id)
  then have "split_sep c (pre @ name) = split_sep c a @ [name]"
    using assms(1) by (simp add: split_sep_append split_sep_notin)
  then show ?thesis by blast
qed

lemma norm_comps_append:
  "norm_comps init (xs @ ys) acc = norm_comps init ys (norm_comps init xs acc)"
  by (induction xs arbitrary: acc) auto

lemma norm_comps_last:
  assumes "name \<noteq> []" "name \<noteq> ''.''" "name \<noteq> ''..''"
  shows "norm_comps init (cs @ [name]) acc = norm_comps init cs acc @ [name]"
  using assms by (simp add: norm_comps_append)

lemma join_sep_snoc:
  "join_sep sep (ws @ [w]) = (if ws = [] then w else join_sep sep ws @ sep @ w)"
  by (induction sep ws rule: join_sep.induct) auto

lemma normpath_keeps_name:
  assumes "CHR ''/'' \<notin> set name" "name \<noteq> []" "name \<noteq> ''.''" "name \<noteq> ''..''"
    and "pre = [] \<or> last pre = CHR ''/''"
  shows "\<exists>pre'. normpath (pre @ name) = pre' @ name \<and> (pre' = [] \<or> last pre' = CHR ''/'')"
proof -
  obtain cs where cs: "split_sep CHR ''/'' (pre @ name) = cs @ [name]"
    using split_sep_last[OF assms(1,5)] by blast
  define init :: nat where "init =
     (if startswith (pre @ name) ''/''
      then (if startswith (pre @ name) ''//'' \<and> \<not> startswith (pre @ name) ''///'' then 2 else 1)
      else 0)"
  define acc where "acc = norm_comps init cs []"
  have ne: "pre @ name \<noteq> []" using assms(2) by simp
  have j: "join_sep ''/'' (acc @ [name]) = (if acc = [] then name else join_sep ''/'' acc @ ''/'' @ name)"
    by (rule join_sep_snoc)
  have "normpath (pre @ name) = replicate init CHR ''/'' @ join_sep ''/'' (acc @ [name])"
    using ne assms(2) cs norm_comps_last[OF assms(2-4), of init cs "[]"]
    unfolding normpath_def init_def[symmetric] acc_def Let_def
    by (simp add: join_sep_snoc)
  then have n: "normpath (pre @ name) =
      (if acc = [] then replicate init CHR ''/'' else replicate init CHR ''/'' @ join_sep ''/'' acc @ ''/'') @ name"
    using j by simp
  have "(if acc = [] then replicate init CHR ''/'' else replicate init CHR ''/'' @ join_sep ''/'' acc @ ''/'') = []
      \<or> last (if acc = [] then replicate init CHR ''/'' else replicate init CHR ''/'' @ join_sep ''/'' acc @ ''/'') = CHR ''/''"
    by (cases init) auto
  with n show ?thesis by blast
qed

lemma endswith_slash_last:
  assumes "a \<noteq> []" "endswith a ''/''"
  shows "last a = CHR ''/''"
proof -
  from assms(2) have d: "drop (length a - 1) a = [CHR ''/'']" by (simp add: endswith_def)
  from assms(1) have "a = butlast a @ [last a]" by simp
  then have "drop (length a - 1) a = [last a]"
    by (metis append_eq_conv_conj length_butlast)
  with d show ?thesis by simp
qed

lemma path_join_keeps_name:
  assumes "name \<noteq> []" "hd name \<noteq> CHR ''/''"
  shows "\<exists>pre. path_join a name = pre @ name \<and> (pre = [] \<or> last pre = CHR ''/'')"
proof -
  have ns: "\<not> startswith name ''/''"
    using assms by (cases name) (auto simp: startswith_def)
  show ?thesis
  proof (cases "a = [] \<or> endswith a ''/''")
    case True
    then have "path_join a name = a @ name" using ns by (simp add: path_join_def)
    moreover have "a = [] \<or> last a = CHR ''/''"
      using True endswith_slash_last by blast
    ultimately show ?thesis by blast
  next
    case False
    then have "path_join a name = (a @ ''/'') @ name" using ns by (simp add: path_join_def)
    moreover have "last (a @ ''/'') = CHR ''/''" by simp
    ultimately show ?thesis by blast
  qed
qed

lemma abspath_keeps_name:
  assumes "CHR ''/'' \<notin> set name" "name \<noteq> []" "name \<noteq> ''.''" "name \<noteq> ''..''"
    and "pre = [] \<or> last pre = CHR ''/''"
  shows "\<exists>pre'. abspath env (pre @ name) = pre' @ name \<and> (pre' = [] \<or> last pre' = CHR ''/'')"
proof (cases "isabs (pre @ name)")
  case True
  then show ?thesis using normpath_keeps_name[OF assms] by (simp add: abspath_def)
next
  case False
  have "pre @ name \<noteq> []" using assms(2) by simp
  moreover have "hd (pre @ name) \<noteq> CHR ''/''"
    using False assms(2) by (cases "pre @ name") (auto simp: isabs_def startswith_def)
  ultimately obtain q where q: "path_join (cwd env) (pre @ name) = q @ (pre @ name)"
    "q = [] \<or> last q = CHR ''/''"
    using path_join_keeps_name by blast
  have qp: "q @ pre = [] \<or> last (q @ pre) = CHR ''/''"
    using q(2) assms(5) by (cases "pre = []") auto
  from normpath_keeps_name[OF assms(1-4) qp] obtain pre' where
    "normpath ((q @ pre) @ name) = pre' @ name" "pre' = [] \<or> last pre' = CHR ''/''" by blast
  with q(1) False show ?thesis
    by (simp add: abspath_def)
qed

lemma rfind_neg: "rfind s c < 0 \<Longrightarrow> rfind s c = - 1"
  by (induction s) (auto simp: Let_def split: if_splits)

lemma rfind_notin: "c \<notin> set s \<Longrightarrow> rfind s c = - 1"
  by (induction s) (auto simp: Let_def)

lemma rfind_append:
  "rfind (a @ b) c = (if 0 \<le> rfind b c then int (length a) + rfind b c else rfind a c)"
proof (induction a)
  case Nil
  show ?case using rfind_neg[of b c] by auto
next
  case (Cons x a)
  then show ?case by (auto simp: Let_def)
qed

declare has_nondot.simps [simp del]

lemma splitext_name:
  assumes tid: "tid \<noteq> []" "CHR ''/'' \<notin> set tid" "CHR ''.'' \<notin> set tid"
    and e: "e = ''.pdf'' \<or> e = ''.tiff''"
    and pre: "pre = [] \<or> last pre = CHR ''/''"
  shows "splitext (pre @ tid @ e) = (pre @ tid, e)"
proof -
  let ?p = "pre @ tid @ e"
  have e_dot: "rfind e CHR ''.'' = 0" using e by (auto simp: Let_def)
  have e_sep: "CHR ''/'' \<notin> set e" using e by auto
  have "rfind (tid @ e) CHR ''.'' = int (length tid)"
    by (simp add: rfind_append e_dot)
  then have dot: "rfind ?p CHR ''.'' = int (length pre + length tid)"
    by (simp add: rfind_append[of pre])
  have "rfind (tid @ e) CHR ''/'' = - 1"
    using tid(2) e_sep by (intro rfind_notin) simp
  then have sep0: "rfind ?p CHR ''/'' = rfind pre CHR ''/''"
    by (simp add: rfind_append[of pre])
  have sep: "rfind ?p CHR ''/'' + 1 = int (length pre)"
  proof (cases "pre = []")
    case True
    then show ?thesis using sep0 by simp
  next
    case False
    with pre have "pre = butlast pre @ ''/''"
      by (metis append_butlast_last_id)
    then obtain a where a: "pre = a @ ''/''" ..
    have "rfind (a @ ''/'') CHR ''/'' = int (length a)"
      by (simp add: rfind_append[of a] Let_def)
    with sep0 a show ?thesis by simp
  qed
  have lt: "rfind ?p CHR ''/'' < rfind ?p CHR ''.''"
    using sep dot by linarith
  obtain t ts where t: "tid = t # ts" using tid(1) by (cases tid) auto
  have "t \<noteq> CHR ''.''" using tid(3) t by auto
  then have hd_tid: "take 1 (drop (length pre) ?p) \<noteq> ''.''"
    using t by simp
  have nd: "has_nondot ?p (length pre) (length pre + length tid)"
    using t hd_tid by (subst has_nondot.simps) simp
  have i1: "nat (rfind ?p CHR ''/'' + 1) = length pre" using sep by linarith
  have i2: "nat (rfind ?p CHR ''.'') = length pre + length tid" using dot by linarith
  have "take (length pre + length tid) ?p = pre @ tid" by simp
  moreover have "drop (length pre + length tid) ?p = e" by simp
  ultimately show ?thesis
    unfolding splitext_def Let_def i1 i2 using lt nd by simp
qed

lemma lower_ext: "e = ''.pdf'' \<or> e = ''.tiff'' \<Longrightarrow> lower e = e"
  by (auto simp: lower_def lower_char_def)

lemma splitext_temp_path:
  assumes tid: "tid \<noteq> []" "CHR ''/'' \<notin> set tid" "CHR ''.'' \<notin> set tid"
    and e: "e = ''.pdf'' \<or> e = ''.tiff''"
  shows "lower (snd (splitext (abspath env (path_join d (tid @ e))))) = e"
proof -
  obtain t ts where t: "tid = t # ts" using tid(1) by (cases tid) auto
  have t1: "t \<noteq> CHR ''/''" and t2: "t \<noteq> CHR ''.''" using tid(2,3) t by auto
  let ?name = "tid @ e"
  have n1: "?name \<noteq> []" using t by simp
  have n2: "hd ?name \<noteq> CHR ''/''" using t t1 by simp
  have "CHR ''/'' \<notin> set e" using e by auto
  then have n3: "CHR ''/'' \<notin> set ?name" using tid(2) by simp
  have n4: "?name \<noteq> ''.''" using t t2 by simp
  have n5: "?name \<noteq> ''..''" using t t2 by simp
  obtain pre where p: "path_join d ?name = pre @ ?name" "pre = [] \<or> last pre = CHR ''/''"
    using path_join_keeps_name[OF n1 n2] by blast
  obtain pre' where p': "abspath env (pre @ ?name) = pre' @ ?name" "pre' = [] \<or> last pre' = CHR ''/''"
    using abspath_keeps_name[OF n3 n1 n4 n5 p(2)] by blast
  have "splitext (pre' @ tid @ e) = (pre' @ tid, e)"
    by (rule splitext_name[OF tid e p'(2)])
  with p p' show ?thesis by (simp add: lower_ext[OF e])
qed

lemma abspath_write_file: "abspath (write_file env p c) q = abspath env q"
  by (simp add: abspath_def write_file_def)

lemma files_write_file: "files (write_file env p c) (abspath env p) = Some c"
  by (simp add: write_file_def)

lemma upload_ext_cases: "upload_ext fname = ''.pdf'' \<or> upload_ext fname = ''.tiff''"
  by (simp add: upload_ext_def)

lemma hex_temp_id:
  assumes "set temp_id \<subseteq> set ''0123456789abcdef''"
  shows "CHR ''/'' \<notin> set temp_id" and "CHR ''.'' \<notin> set temp_id"
  using assms by auto

lemma images_from_file_saved:
  assumes tid: "tid \<noteq> []" "CHR ''/'' \<notin> set tid" "CHR ''.'' \<notin> set tid"
    and e: "e = ''.pdf'' \<or> e = ''.tiff''"
    and env1: "env1 = write_file env (path_join d (tid @ e)) c"
  shows "fst (images_from_file env1 (path_join d (tid @ e))) =
     (if e = ''.pdf'' then images_from_pdf env1 (abspath env1 (path_join d (tid @ e)))
      else images_from_tiff env1 (abspath env1 (path_join d (tid @ e))))"
proof -
  let ?tp = "path_join d (tid @ e)"
  have a: "abspath env1 ?tp = abspath env ?tp" by (simp add: env1 abspath_write_file)
  have ex: "path_exists env1 (abspath env1 ?tp)"
    unfolding path_exists_def a by (simp add: env1 files_write_file)
  have ext: "lower (snd (splitext (abspath env1 ?tp))) = e"
    by (rule splitext_temp_path[OF tid e])
  show ?thesis
  proof (cases "e = ''.pdf''")
    case True
    with ex ext show ?thesis by (simp add: images_from_file_def Let_def)
  next
    case False
    with e have "e = ''.tiff''" by simp
    with ex ext show ?thesis by (simp add: images_from_file_def Let_def)
  qed
qed

definition ex_env0 :: os_env where
  "ex_env0 = \<lparr>cwd = ''/srv/app'', files = (\<lambda>p. None)\<rparr>"

definition ex_cfg :: settings where
  "ex_cfg = \<lparr>UPLOAD_DIR = ''uploads'', MAX_FILE_BYTES = 1000\<rparr>"

definition ex_upload :: upload_file where
  "ex_upload = \<lparr>filename = ''scan.tif'', content_type = ''application/pdf'',
                 payload = TiffDoc [Image ''L'' 7], payload_len = 100\<rparr>"

text \<open>
  C10. For an upload whose MIME type is one of the four accepted and whose size is within
  the ceiling (a larger one is rejected with 413 before anything is saved), with
  \<open>temp_id\<close> the hexadecimal digits of the UUID: the payload is saved under
  \<open>temp_id\<close> with the extension \<^verbatim>\<open>.pdf\<close> if the declared file name, lower-cased, ends
  with \<^verbatim>\<open>.pdf\<close>, and \<^verbatim>\<open>.tiff\<close> otherwise; \<^verbatim>\<open>_images_from_file\<close> on the saved file
  takes the PDF branch in the first case and the TIFF branch in the second; and the
  request's result is that of \<^verbatim>\<open>run_ocr_on_file\<close> on the saved file. The MIME type
  plays no part. In the witness, a payload declared \<^verbatim>\<open>application/pdf\<close> under the name
  \<^verbatim>\<open>scan.tif\<close> is read as a TIFF.
\<close>

theorem upload_format_by_filename:
  assumes "content_type file \<in> set [''application/pdf'', ''image/tiff'', ''image/tif'', ''image/x-tiff'']"
    and "payload_len file \<le> MAX_FILE_BYTES cfg"
    and "temp_id \<noteq> []" and "set temp_id \<subseteq> set ''0123456789abcdef''"
    and "temp_path = path_join (UPLOAD_DIR cfg) (temp_id @ upload_ext (filename file))"
    and "env1 = write_file env temp_path (payload file)"
  shows "upload_ext (filename file) =
           (if endswith (lower (filename file)) ''.pdf'' then ''.pdf'' else ''.tiff'') \<and>
         files env1 (abspath env1 temp_path) = Some (payload file) \<and>
         snd (splitext (abspath env1 temp_path)) = upload_ext (filename file) \<and>
         fst (images_from_file env1 temp_path) =
           (if endswith (lower (filename file)) ''.pdf''
            then images_from_pdf env1 (abspath env1 temp_path)
            else images_from_tiff env1 (abspath env1 temp_path)) \<and>
         upload_and_process env eng cfg temp_id file engine db =
           (case run_ocr_on_file env1 eng temp_path (filename file) engine db of
              (Inl ocr_err, db') \<Rightarrow> (Inl (OCRFailed ocr_err), remove_file env1 temp_path, db')
            | (Inr (total_rows, total_pages), db') \<Rightarrow>
                (Inr \<lparr>j_file_name = filename file, j_engine = engine_value engine,
                      j_pages = total_pages, j_rows_inserted = total_rows,
                      j_message = ''OCR completed and results stored.''\<rparr>,
                 remove_file env1 temp_path, db'))"
proof -
  let ?e = "upload_ext (filename file)"
  have e: "?e = ''.pdf'' \<or> ?e = ''.tiff''" by (rule upload_ext_cases)
  have t1: "CHR ''/'' \<notin> set temp_id" and t2: "CHR ''.'' \<notin> set temp_id"
    using hex_temp_id[OF assms(4)] by simp_all
  have env1: "env1 = write_file env (path_join (UPLOAD_DIR cfg) (temp_id @ ?e)) (payload file)"
    using assms(5,6) by simp
  have c1: "?e = (if endswith (lower (filename file)) ''.pdf'' then ''.pdf'' else ''.tiff'')"
    by (simp add: upload_ext_def)
  have a: "abspath env1 temp_path = abspath env temp_path"
    by (simp add: assms(6) abspath_write_file)
  have c2: "files env1 (abspath env1 temp_path) = Some (payload file)"
    unfolding a by (simp add: assms(6) files_write_file)
  have ext: "lower (snd (splitext (abspath env1 temp_path))) = ?e"
    unfolding assms(5) by (rule splitext_temp_path[OF assms(3) t1 t2 e])
  obtain pre where pre: "abspath env1 temp_path = pre @ temp_id @ ?e"
      "pre = [] \<or> last pre = CHR ''/''"
  proof -
    obtain t ts where t: "temp_id = t # ts" using assms(3) by (cases temp_id) auto
    have tt: "t \<noteq> CHR ''/''" "t \<noteq> CHR ''.''" using t1 t2 t by auto
    have n1: "temp_id @ ?e \<noteq> []" using t by simp
    have n2: "hd (temp_id @ ?e) \<noteq> CHR ''/''" using t tt by simp
    have "CHR ''/'' \<notin> set ?e" using e by auto
    then have n3: "CHR ''/'' \<notin> set (temp_id @ ?e)" using t1 by simp
    have n4: "temp_id @ ?e \<noteq> ''.''" "temp_id @ ?e \<noteq> ''..''" using t tt by simp_all
    obtain p where p: "path_join (UPLOAD_DIR cfg) (temp_id @ ?e) = p @ (temp_id @ ?e)"
        "p = [] \<or> last p = CHR ''/''"
      using path_join_keeps_name[OF n1 n2] by blast
    obtain p' where "abspath env1 (p @ (temp_id @ ?e)) = p' @ (temp_id @ ?e)"
        "p' = [] \<or> last p' = CHR ''/''"
      using abspath_keeps_name[OF n3 n1 n4 p(2)] by blast
    with p(1) assms(5) that show ?thesis by simp
  qed
  have c3: "snd (splitext (abspath env1 temp_path)) = ?e"
    unfolding pre(1) using splitext_name[OF assms(3) t1 t2 e pre(2)] by simp
  have "fst (images_from_file env1 temp_path) =
      (if ?e = ''.pdf'' then images_from_pdf env1 (abspath env1 temp_path)
       else images_from_tiff env1 (abspath env1 temp_path))"
    unfolding assms(5) by (rule images_from_file_saved[OF assms(3) t1 t2 e env1])
  then have c4: "fst (images_from_file env1 temp_path) =
      (if endswith (lower (filename file)) ''.pdf''
       then images_from_pdf env1 (abspath env1 temp_path)
       else images_from_tiff env1 (abspath env1 temp_path))"
    by (simp add: upload_ext_def)
  have c5: "upload_and_process env eng cfg temp_id file engine db =
           (case run_ocr_on_file env1 eng temp_path (filename file) engine db of
              (Inl ocr_err, db') \<Rightarrow> (Inl (OCRFailed ocr_err), remove_file env1 temp_path, db')
            | (Inr (total_rows, total_pages), db') \<Rightarrow>
                (Inr \<lparr>j_file_name = filename file, j_engine = engine_value engine,
                      j_pages = total_pages, j_rows_inserted = total_rows,
                      j_message = ''OCR completed and results stored.''\<rparr>,
                 remove_file env1 temp_path, db'))"
    using assms(1,2) unfolding assms(5,6) upload_and_process_def Let_def
    by (simp add: not_less[symmetric])
  from c1 c2 c3 c4 c5 show ?thesis by blast
qed

theorem upload_format_by_filename_witness:
  "content_type ex_upload = ''application/pdf'' \<and>
   \<not> endswith (lower (filename ex_upload)) ''.pdf'' \<and>
   fst (images_from_file (write_file ex_env0 ''uploads/0a1b.tiff'' (payload ex_upload))
          ''uploads/0a1b.tiff'') = Inr [(1, Image ''RGB'' 7)]"
proof -
  let ?tp = "''uploads/0a1b.tiff''"
  let ?env1 = "write_file ex_env0 ?tp (payload ex_upload)"
  have h1: "content_type ex_upload \<in> set [''application/pdf'', ''image/tiff'', ''image/tif'', ''image/x-tiff'']"
    by (simp add: ex_upload_def)
  have h2: "payload_len ex_upload \<le> MAX_FILE_BYTES ex_cfg" by (simp add: ex_upload_def ex_cfg_def)
  have h3: "''0a1b'' \<noteq> []" by simp
  have h4: "set ''0a1b'' \<subseteq> set ''0123456789abcdef''" by simp
  have h5: "?tp = path_join (UPLOAD_DIR ex_cfg) (''0a1b'' @ upload_ext (filename ex_upload))"
    by code_simp
  have n: "\<not> endswith (lower (filename ex_upload)) ''.pdf''" by code_simp
  have t: "images_from_tiff ?env1 (abspath ?env1 ?tp) = Inr [(1, Image ''RGB'' 7)]"
    by code_simp
  from upload_format_by_filename[OF h1 h2 h3 h4 h5 refl, of ex_env0]
  have "fst (images_from_file ?env1 ?tp) = images_from_tiff ?env1 (abspath ?env1 ?tp)"
    using n by simp
  with t n show ?thesis by (simp add: ex_upload_def)
qed

end
